theory Spec2Isabelle
  imports Complex_Main
begin

section \<open>Python values used by the two scripts\<close>

text \<open>
  The scripts \<^verbatim>\<open>workflow/scripts/combine.py\<close> and
  \<^verbatim>\<open>workflow/scripts/extract_overlap.py\<close> read text files line by line, split
  the lines into fields, keep dictionaries and write text. A Python \<^verbatim>\<open>str\<close> is a
  \<^typ>\<open>string\<close> (characters are the code points below 256), a text file is the list
  of the lines its iteration yields (each with its line terminator, which only the last
  line may lack), and every exception a statement can raise is a value of \<open>error\<close>:
  a function that can raise returns \<open>error + 'a\<close>, with \<open>Inl\<close> the exception
  that ends the run.
\<close>

datatype error = IndexError | KeyError | ValueError | StopIteration

text \<open>\<^verbatim>\<open>xs[i]\<close> for a constant index \<open>i \<ge> 0\<close>: IndexError out of range.\<close>

definition getitem :: "'a list \<Rightarrow> nat \<Rightarrow> error + 'a" where
  "getitem xs i = (if i < length xs then Inr (xs ! i) else Inl IndexError)"

text \<open>
  The characters \<^verbatim>\<open>str.split()\<close> treats as whitespace, among the code points below
  256: tab, line feed, vertical tab, form feed, carriage return, the four separators 0x1C
  to 0x1F, space, 0x85 and 0xA0.
\<close>

definition is_space :: "char \<Rightarrow> bool" where
  "is_space c = (c \<in> set [CHR 0x09, CHR 0x0A, CHR 0x0B, CHR 0x0C, CHR 0x0D,
                            CHR 0x1C, CHR 0x1D, CHR 0x1E, CHR 0x1F, CHR 0x20,
                            CHR 0x85, CHR 0xA0])"

text \<open>
  \<^verbatim>\<open>line.split()\<close>: the maximal runs of characters that are not whitespace, in order;
  no empty field. \<open>cur\<close> is the field being read.
\<close>

fun split_aux :: "string \<Rightarrow> string \<Rightarrow> string list" where
  "split_aux cur [] = (if cur = [] then [] else [cur])"
| "split_aux cur (c # cs) =
     (if is_space c then (if cur = [] then split_aux [] cs else cur # split_aux [] cs)
      else split_aux (cur @ [c]) cs)"

definition split :: "string \<Rightarrow> string list" where
  "split s = split_aux [] s"

text \<open>
  \<^verbatim>\<open>line.split(sep)\<close> for a separator of one character: the fields between the
  separators, empty fields kept; the result always has at least one field.
\<close>

fun split_sep_aux :: "char \<Rightarrow> string \<Rightarrow> string \<Rightarrow> string list" where
  "split_sep_aux sep cur [] = [cur]"
| "split_sep_aux sep cur (c # cs) =
     (if c = sep then cur # split_sep_aux sep [] cs else split_sep_aux sep (cur @ [c]) cs)"

definition split_sep :: "char \<Rightarrow> string \<Rightarrow> string list" where
  "split_sep sep s = split_sep_aux sep [] s"

text \<open>\<^verbatim>\<open>line.strip('\n')\<close>: the line without its leading and trailing line feeds.\<close>

definition strip_newline :: "string \<Rightarrow> string" where
  "strip_newline s =
     rev (dropWhile (\<lambda>c. c = CHR 0x0A) (rev (dropWhile (\<lambda>c. c = CHR 0x0A) s)))"

text \<open>
  The slices \<^verbatim>\<open>s[1:-2]\<close> (drop the first character and the last two; empty when
  \<open>s\<close> has fewer than four characters) and \<^verbatim>\<open>s[:-1]\<close> (drop the last character).
\<close>

definition slice_1_m2 :: "string \<Rightarrow> string" where
  "slice_1_m2 s = drop 1 (take (length s - 2) s)"

definition slice_m1 :: "string \<Rightarrow> string" where
  "slice_m1 s = take (length s - 1) s"

text \<open>
  A \<^verbatim>\<open>dict\<close> keeps its items in insertion order: an association list with distinct
  keys. \<^verbatim>\<open>d[k] = v\<close> replaces the value of a key in place and appends a new key at
  the end; \<^verbatim>\<open>d[k]\<close> is \<^const>\<open>map_of\<close>, with \<open>None\<close> standing for KeyError.
\<close>

type_synonym ('k, 'v) dict = "('k \<times> 'v) list"

fun setitem :: "('k, 'v) dict \<Rightarrow> 'k \<Rightarrow> 'v \<Rightarrow> ('k, 'v) dict" where
  "setitem [] k v = [(k, v)]"
| "setitem ((k', v') # d) k v =
     (if k' = k then (k, v) # d else (k', v') # setitem d k v)"

section \<open>combine.py: adding the counts to a GTF file\<close>

text \<open>
  What \<^verbatim>\<open>combine\<close> does to the outside: it writes to the two files it opened
  (\<^verbatim>\<open>outfile\<close>, opened for writing, and \<^verbatim>\<open>removed_out\<close>, opened for appending)
  and logs warnings and errors. A run is modelled by the effects it has, in order. A run
  that an exception ends is the value \<open>Inl\<close> of that exception; what it did before
  is what the run on the lines before the failing one does.
\<close>

datatype sink = Outfile | Removed_out

datatype effect = FileWrite sink string | LogWarning string | LogError string

fun file_writes :: "effect list \<Rightarrow> (sink \<times> string) list" where
  "file_writes [] = []"
| "file_writes (FileWrite s x # es) = (s, x) # file_writes es"
| "file_writes (LogWarning m # es) = file_writes es"
| "file_writes (LogError m # es) = file_writes es"

text \<open>
  The body of the loop of \<^verbatim>\<open>combine\<close> (lines 112 to 152) for one line of the GTF
  file: the new value of the flag \<^verbatim>\<open>write\<close> and the effects of the iteration. The
  values of the dictionary \<^verbatim>\<open>counts\<close> are \<^verbatim>\<open>int\<close>s (from \<^verbatim>\<open>format_oxford\<close> and
  \<^verbatim>\<open>format_talon\<close>) or \<^verbatim>\<open>float\<close>s (from \<^verbatim>\<open>format_flair\<close>); the loop uses only
  \<^verbatim>\<open>count == 0\<close> and \<^verbatim>\<open>str(count)\<close> on them, which are the parameters
  \<open>is_zero\<close> and \<open>str\<close>. Only KeyError is caught; the IndexError of a line with
  too few fields ends the run.
\<close>

definition combine_line ::
  "('c \<Rightarrow> bool) \<Rightarrow> ('c \<Rightarrow> string) \<Rightarrow> string \<Rightarrow> (string, 'c) dict \<Rightarrow> bool \<Rightarrow> string
     \<Rightarrow> error + (bool \<times> effect list)" where
  "combine_line is_zero str origin_file counts write line =
     (case getitem (split line) 2 of
        Inl e \<Rightarrow> Inl e
      | Inr kind \<Rightarrow>
          if kind = ''transcript'' then
            (case getitem (split line) 11 of
               Inl e \<Rightarrow> Inl e
             | Inr field \<Rightarrow>
                 let transcript_id = slice_1_m2 field in
                 (case map_of counts transcript_id of
                    Some count \<Rightarrow>
                      if is_zero count then
                        Inr (False,
                          [LogWarning (''ORIGIN: '' @ origin_file @ '' 0 count: '' @ transcript_id),
                           FileWrite Removed_out (slice_m1 line @ ''\<newline>'')])
                      else
                        Inr (True,
                          [FileWrite Outfile (slice_m1 line @ '' TPM \"'' @ str count @ ''\";\<newline>'')])
                  | None \<Rightarrow>
                      (case getitem (split line) 9 of
                         Inl e \<Rightarrow> Inl e
                       | Inr gene_field \<Rightarrow>
                           let gene_id = slice_1_m2 gene_field;
                               new_transcript_id = transcript_id @ ''_'' @ gene_id in
                           (case map_of counts new_transcript_id of
                              Some count \<Rightarrow>
                                Inr (True,
                                  [FileWrite Outfile
                                     (slice_m1 line @ '' TPM \"'' @ str count @ ''\";\<newline>'')])
                            | None \<Rightarrow>
                                Inr (False,
                                  [LogError (''ORIGIN: '' @ origin_file @ '' FIRST TRY: ''
                                      @ transcript_id @ '' SECOND TRY: '' @ new_transcript_id),
                                   FileWrite Removed_out (slice_m1 line @ ''\<newline>'')])))))
          else if write then Inr (write, [FileWrite Outfile line])
          else Inr (write, [FileWrite Removed_out line]))"

text \<open>
  The loop over the lines of the GTF file, from a value of \<^verbatim>\<open>write\<close>: the final
  value of the flag and, for each line in order, the effects of its iteration.
\<close>

fun combine_loop ::
  "('c \<Rightarrow> bool) \<Rightarrow> ('c \<Rightarrow> string) \<Rightarrow> string \<Rightarrow> (string, 'c) dict \<Rightarrow> bool \<Rightarrow> string list
     \<Rightarrow> error + (bool \<times> effect list list)" where
  "combine_loop is_zero str origin_file counts write [] = Inr (write, [])"
| "combine_loop is_zero str origin_file counts write (line # GTF) =
     (case combine_line is_zero str origin_file counts write line of
        Inl e \<Rightarrow> Inl e
      | Inr (write', effects) \<Rightarrow>
          (case combine_loop is_zero str origin_file counts write' GTF of
             Inl e \<Rightarrow> Inl e
           | Inr (write'', rest) \<Rightarrow> Inr (write'', effects # rest)))"

text \<open>
  \<^verbatim>\<open>combine(gtf_file, counts, output, missing_output)\<close>, with \<open>GTF\<close> the lines of
  the file at \<open>gtf_file\<close>: \<^verbatim>\<open>origin_file\<close> is the last component of the path and
  \<^verbatim>\<open>write\<close> starts as \<^verbatim>\<open>True\<close>. The result lists the effects of each line.
\<close>

definition combine ::
  "('c \<Rightarrow> bool) \<Rightarrow> ('c \<Rightarrow> string) \<Rightarrow> string \<Rightarrow> string list \<Rightarrow> (string, 'c) dict
     \<Rightarrow> error + effect list list" where
  "combine is_zero str gtf_file GTF counts =
     (case combine_loop is_zero str (last (split_sep CHR ''/'' gtf_file)) counts True GTF of
        Inl e \<Rightarrow> Inl e
      | Inr (write, effects) \<Rightarrow> Inr effects)"

text \<open>The record kind of a line, as the loop reads it: the third field of the split.\<close>

definition record_kind :: "string \<Rightarrow> error + string" where
  "record_kind line = getitem (split line) 2"

text \<open>
  \<^verbatim>\<open>str(count)\<close> for an \<^verbatim>\<open>int\<close>: the decimal digits, with a minus sign for a negative
  number.
\<close>

fun str_nat :: "nat \<Rightarrow> string" where
  "str_nat n =
     (if n < 10 then [''0123456789'' ! n]
      else str_nat (n div 10) @ [''0123456789'' ! (n mod 10)])"

declare str_nat.simps [simp del]

definition str_int :: "int \<Rightarrow> string" where
  "str_int i = (if i < 0 then CHR ''-'' # str_nat (nat (- i)) else str_nat (nat i))"

subsection \<open>The abundance readers with integer counts\<close>

text \<open>
  \<^verbatim>\<open>int(s)\<close> and \<^verbatim>\<open>float(s)\<close> for a string drop the whitespace around the
  number. They first turn the whitespace beyond ASCII, 0x85 and 0xA0 among the code points
  below 256, into spaces, and then skip what C calls space: tab, line feed, vertical tab,
  form feed, carriage return and space. The separators 0x1C to 0x1F, which
  \<^verbatim>\<open>str.split()\<close> takes for whitespace, are not dropped, and a number next to one
  raises ValueError.
\<close>

definition is_number_space :: "char \<Rightarrow> bool" where
  "is_number_space c =
     (c \<in> set [CHR 0x09, CHR 0x0A, CHR 0x0B, CHR 0x0C, CHR 0x0D, CHR 0x20, CHR 0x85, CHR 0xA0])"

definition strip_number :: "string \<Rightarrow> string" where
  "strip_number s = rev (dropWhile is_number_space (rev (dropWhile is_number_space s)))"

text \<open>
  \<^verbatim>\<open>int(s)\<close> for a string, in Python 3.9 (the version the scripts name): after the
  whitespace around the number is dropped, one sign may come first, and the digits may be
  grouped by single underscores between digits. Anything else raises ValueError.
  \<open>digits_from n s\<close> reads the rest \<open>s\<close> of a number whose digits so far have the
  value \<open>n\<close>.
\<close>

definition is_digit :: "char \<Rightarrow> bool" where
  "is_digit c = (c \<in> set ''0123456789'')"

definition digit_value :: "char \<Rightarrow> nat" where
  "digit_value c = of_char c - 48"

fun digits_from :: "nat \<Rightarrow> string \<Rightarrow> nat option" where
  "digits_from n [] = Some n"
| "digits_from n [c] = (if is_digit c then Some (10 * n + digit_value c) else None)"
| "digits_from n (c # d # ds) =
     (if is_digit c then digits_from (10 * n + digit_value c) (d # ds)
      else if c = CHR ''_'' \<and> is_digit d then digits_from (10 * n + digit_value d) ds
      else None)"

definition decimal :: "string \<Rightarrow> nat option" where
  "decimal s =
     (case s of
        [] \<Rightarrow> None
      | c # cs \<Rightarrow> if is_digit c then digits_from (digit_value c) cs else None)"

definition int_py :: "string \<Rightarrow> error + int" where
  "int_py s =
     (case strip_number s of
        [] \<Rightarrow> Inl ValueError
      | c # cs \<Rightarrow>
          if c = CHR ''-'' then
            (case decimal cs of None \<Rightarrow> Inl ValueError | Some n \<Rightarrow> Inr (- int n))
          else if c = CHR ''+'' then
            (case decimal cs of None \<Rightarrow> Inl ValueError | Some n \<Rightarrow> Inr (int n))
          else
            (case decimal (c # cs) of None \<Rightarrow> Inl ValueError | Some n \<Rightarrow> Inr (int n)))"

text \<open>\<^verbatim>\<open>[int(x) for x in xs]\<close> and \<^verbatim>\<open>map(int, xs)\<close>: the first ValueError ends it.\<close>

fun ints :: "string list \<Rightarrow> error + int list" where
  "ints [] = Inr []"
| "ints (x # xs) =
     (case int_py x of
        Inl e \<Rightarrow> Inl e
      | Inr n \<Rightarrow> (case ints xs of Inl e \<Rightarrow> Inl e | Inr ns \<Rightarrow> Inr (n # ns)))"

text \<open>
  One iteration of the loop of \<^verbatim>\<open>format_oxford\<close> (lines 30 to 33) and of
  \<^verbatim>\<open>format_talon\<close> (lines 51 to 54): the key and the count of a row.
\<close>

definition oxford_row :: "string \<Rightarrow> error + (string \<times> int)" where
  "oxford_row l =
     (let line = split_sep CHR '','' (strip_newline l) in
      case getitem line 0 of
        Inl e \<Rightarrow> Inl e
      | Inr transcript_id \<Rightarrow>
          (case ints (filter (\<lambda>count. count \<noteq> []) (drop 1 line)) of
             Inl e \<Rightarrow> Inl e
           | Inr numbers \<Rightarrow> Inr (transcript_id, sum_list numbers)))"

definition talon_row :: "string \<Rightarrow> error + (string \<times> int)" where
  "talon_row l =
     (let line = split_sep (CHR 0x09) (strip_newline l) in
      case getitem line 3 of
        Inl e \<Rightarrow> Inl e
      | Inr transcript_id \<Rightarrow>
          (case ints (drop 11 line) of
             Inl e \<Rightarrow> Inl e
           | Inr numbers \<Rightarrow> Inr (transcript_id, sum_list numbers)))"

text \<open>
  The loop the three readers share: each row's count is stored under its key, a later row
  replacing an earlier one with the same key.
\<close>

fun rows_loop ::
  "(string \<Rightarrow> error + (string \<times> 'c)) \<Rightarrow> (string, 'c) dict \<Rightarrow> string list
     \<Rightarrow> error + (string, 'c) dict" where
  "rows_loop row d [] = Inr d"
| "rows_loop row d (l # file) =
     (case row l of
        Inl e \<Rightarrow> Inl e
      | Inr (transcript_id, counts) \<Rightarrow> rows_loop row (setitem d transcript_id counts) file)"

text \<open>
  \<^verbatim>\<open>format_oxford(abundance)\<close> and \<^verbatim>\<open>format_talon(abundance)\<close> on the lines of the
  abundance file: \<^verbatim>\<open>next(file)\<close> skips the header and raises StopIteration on an empty
  file.
\<close>

definition format_oxford :: "string list \<Rightarrow> error + (string, int) dict" where
  "format_oxford file =
     (case file of [] \<Rightarrow> Inl StopIteration | header # rows \<Rightarrow> rows_loop oxford_row [] rows)"

definition format_talon :: "string list \<Rightarrow> error + (string, int) dict" where
  "format_talon file =
     (case file of [] \<Rightarrow> Inl StopIteration | header # rows \<Rightarrow> rows_loop talon_row [] rows)"

subsection \<open>The abundance reader with float counts\<close>

text \<open>
  A Python \<^verbatim>\<open>float\<close> is an IEEE 754 double. A finite double is the rational number it
  stands for, \<open>Finite 0\<close> being the positive zero; the negative zero, the two
  infinities and the value that is not a number are the other doubles.
\<close>

datatype double = Finite rat | NegZero | PInf | NInf | NaN

text \<open>
  \<open>bit_length n\<close> is the number of binary digits of \<open>n\<close>, and
  \<open>floor_log2 a b\<close>, for positive \<open>a\<close> and \<open>b\<close>, the exponent of the highest power
  of two that is at most \<open>a / b\<close>.
\<close>

fun bit_length :: "nat \<Rightarrow> nat" where
  "bit_length n = (if n = 0 then 0 else Suc (bit_length (n div 2)))"

declare bit_length.simps [simp del]

definition floor_log2 :: "nat \<Rightarrow> nat \<Rightarrow> int" where
  "floor_log2 a b =
     (if b \<le> a then int (bit_length (a div b)) - 1 else - int (bit_length ((b - 1) div a)))"

text \<open>
  \<open>round_half_even a b\<close> is the natural number nearest to \<open>a / b\<close>, the even one of
  two that are equally near.
\<close>

definition round_half_even :: "nat \<Rightarrow> nat \<Rightarrow> nat" where
  "round_half_even a b =
     (let q = a div b; r = a mod b in
      if 2 * r < b then q else if b < 2 * r then q + 1 else if even q then q else q + 1)"

text \<open>
  \<open>round_ratio negative a b\<close> is the double nearest to the number \<open>a / b\<close> with a
  positive \<open>b\<close>, negated when \<open>negative\<close> holds: the number is rounded to 53
  significant binary digits, to nearest and to even on a tie, with the weight of the last
  digit never below \<open>2 ^ - 1074\<close> (the subnormal doubles). What reaches \<open>2 ^ 1024\<close>
  becomes an infinity, and what rounds to nothing becomes the zero of its sign.
\<close>

definition round_ratio :: "bool \<Rightarrow> nat \<Rightarrow> nat \<Rightarrow> double" where
  "round_ratio negative a b =
     (if a = 0 then (if negative then NegZero else Finite 0)
      else
        let e = max (- 1074) (floor_log2 a b - 52);
            m = (if 0 \<le> e then round_half_even a (b * 2 ^ nat e)
                 else round_half_even (a * 2 ^ nat (- e)) b)
        in if m = 0 then (if negative then NegZero else Finite 0)
           else if 1024 < int (bit_length m) + e then (if negative then NInf else PInf)
           else
             let v = (if 0 \<le> e then rat_of_nat m * 2 ^ nat e else rat_of_nat m / 2 ^ nat (- e))
             in Finite (if negative then - v else v))"

definition round_rat :: "rat \<Rightarrow> double" where
  "round_rat r = (case quotient_of r of (a, b) \<Rightarrow> round_ratio (a < 0) (nat \<bar>a\<bar>) (nat b))"

text \<open>
  \<^verbatim>\<open>x + y\<close> on doubles: the exact sum, rounded once. A sum of finite doubles that is
  exactly zero is the positive zero, unless both are the negative zero.
\<close>

fun double_add :: "double \<Rightarrow> double \<Rightarrow> double" where
  "double_add NaN y = NaN"
| "double_add x NaN = NaN"
| "double_add PInf NInf = NaN"
| "double_add NInf PInf = NaN"
| "double_add PInf y = PInf"
| "double_add x PInf = PInf"
| "double_add NInf y = NInf"
| "double_add x NInf = NInf"
| "double_add NegZero NegZero = NegZero"
| "double_add NegZero (Finite q) = Finite q"
| "double_add (Finite p) NegZero = Finite p"
| "double_add (Finite p) (Finite q) = round_rat (p + q)"

text \<open>
  A count is an \<^verbatim>\<open>int\<close> or a \<^verbatim>\<open>float\<close>. \<^verbatim>\<open>sum(xs)\<close> of floats starts from the
  \<^verbatim>\<open>int\<close> 0 and adds the items from left to right, in Python 3.9 by plain float
  additions: the sum of no item is the \<^verbatim>\<open>int\<close> 0, and the first addition turns the 0
  into the positive zero.
\<close>

datatype number = PyInt int | PyFloat double

fun sum_floats :: "double list \<Rightarrow> number" where
  "sum_floats [] = PyInt 0"
| "sum_floats (x # xs) = PyFloat (foldl double_add (double_add (Finite 0) x) xs)"

text \<open>
  \<^verbatim>\<open>float(s)\<close> for a string. Underscores are taken out first: each has to stand
  between two digits, \<open>prev\<close> being the character before. Then the whitespace
  around the number is dropped. What is left is a sign, if any, and then
  \<^verbatim>\<open>inf\<close>, \<^verbatim>\<open>infinity\<close> or \<^verbatim>\<open>nan\<close> in upper or lower case, or a decimal number:
  digits with at most one point among or around them, at least one digit, and an exponent,
  if any, of \<^verbatim>\<open>e\<close> or \<^verbatim>\<open>E\<close>, a sign, if any, and digits. The decimal number is
  rounded to the nearest double. Anything else raises ValueError.
\<close>

definition digits_value :: "string \<Rightarrow> nat" where
  "digits_value s = foldl (\<lambda>n c. 10 * n + digit_value c) 0 s"

fun remove_underscores :: "char \<Rightarrow> string \<Rightarrow> string option" where
  "remove_underscores prev [] = (if prev = CHR ''_'' then None else Some [])"
| "remove_underscores prev (c # cs) =
     (if c = CHR ''_'' then (if is_digit prev then remove_underscores c cs else None)
      else if prev = CHR ''_'' \<and> \<not> is_digit c then None
      else map_option ((#) c) (remove_underscores c cs))"

definition lower :: "char \<Rightarrow> char" where
  "lower c = (let n = of_char c :: nat in if 65 \<le> n \<and> n \<le> 90 then char_of (n + 32) else c)"

definition exponent :: "string \<Rightarrow> int option" where
  "exponent s =
     (case s of
        [] \<Rightarrow> Some 0
      | c # cs \<Rightarrow>
          if c = CHR ''e'' \<or> c = CHR ''E'' then
            (case cs of
               [] \<Rightarrow> None
             | d # ds \<Rightarrow>
                 if d = CHR ''-'' then
                   (if ds \<noteq> [] \<and> list_all is_digit ds then Some (- int (digits_value ds)) else None)
                 else if d = CHR ''+'' then
                   (if ds \<noteq> [] \<and> list_all is_digit ds then Some (int (digits_value ds)) else None)
                 else if list_all is_digit cs then Some (int (digits_value cs))
                 else None)
          else None)"

definition round_decimal :: "bool \<Rightarrow> nat \<Rightarrow> int \<Rightarrow> double" where
  "round_decimal negative n e =
     (if 0 \<le> e then round_ratio negative (n * 10 ^ nat e) 1
      else round_ratio negative n (10 ^ nat (- e)))"

definition decimal_literal :: "bool \<Rightarrow> string \<Rightarrow> double option" where
  "decimal_literal negative body =
     (let int_digits = takeWhile is_digit body;
          after_int = dropWhile is_digit body;
          frac_digits = (case after_int of
                           [] \<Rightarrow> []
                         | c # cs \<Rightarrow> if c = CHR ''.'' then takeWhile is_digit cs else []);
          after_frac = (case after_int of
                          [] \<Rightarrow> []
                        | c # cs \<Rightarrow> if c = CHR ''.'' then dropWhile is_digit cs else after_int)
      in if int_digits = [] \<and> frac_digits = [] then None
         else
           (case exponent after_frac of
              None \<Rightarrow> None
            | Some e \<Rightarrow>
                Some (round_decimal negative (digits_value (int_digits @ frac_digits))
                        (e - int (length frac_digits)))))"

definition float_literal :: "string \<Rightarrow> double option" where
  "float_literal s =
     (let negative = (case s of [] \<Rightarrow> False | c # cs \<Rightarrow> c = CHR ''-'');
          body = (case s of [] \<Rightarrow> [] | c # cs \<Rightarrow> if c = CHR ''-'' \<or> c = CHR ''+'' then cs else s);
          word = map lower body
      in if word = ''inf'' \<or> word = ''infinity'' then Some (if negative then NInf else PInf)
         else if word = ''nan'' then Some NaN
         else decimal_literal negative body)"

definition float_py :: "string \<Rightarrow> error + double" where
  "float_py s =
     (case remove_underscores (CHR 0x00) s of
        None \<Rightarrow> Inl ValueError
      | Some t \<Rightarrow>
          (case float_literal (strip_number t) of
             None \<Rightarrow> Inl ValueError
           | Some x \<Rightarrow> Inr x))"

text \<open>\<^verbatim>\<open>map(float, xs)\<close>: the first ValueError ends it.\<close>

fun floats :: "string list \<Rightarrow> error + double list" where
  "floats [] = Inr []"
| "floats (x # xs) =
     (case float_py x of
        Inl e \<Rightarrow> Inl e
      | Inr n \<Rightarrow> (case floats xs of Inl e \<Rightarrow> Inl e | Inr ns \<Rightarrow> Inr (n # ns)))"

text \<open>
  One iteration of the loop of \<^verbatim>\<open>format_flair\<close> (lines 72 to 75), and
  \<^verbatim>\<open>format_flair(abundance)\<close> on the lines of the abundance file. The count of a row
  is the \<^verbatim>\<open>float\<close> its fields sum to; it is not turned into an \<^verbatim>\<open>int\<close>.
\<close>

definition flair_row :: "string \<Rightarrow> error + (string \<times> number)" where
  "flair_row l =
     (let line = split_sep (CHR 0x09) (strip_newline l) in
      case getitem line 0 of
        Inl e \<Rightarrow> Inl e
      | Inr transcript_id \<Rightarrow>
          (case floats (drop 1 line) of
             Inl e \<Rightarrow> Inl e
           | Inr numbers \<Rightarrow> Inr (transcript_id, sum_floats numbers)))"

definition format_flair :: "string list \<Rightarrow> error + (string, number) dict" where
  "format_flair file =
     (case file of [] \<Rightarrow> Inl StopIteration | header # rows \<Rightarrow> rows_loop flair_row [] rows)"

section \<open>extract_overlap.py: one GTF file per kind of match\<close>

subsection \<open>categorize_tracking\<close>

text \<open>
  The inner loop of \<^verbatim>\<open>categorize_tracking\<close> (lines 29 to 37) over the fields of a
  tracking line from the fifth on, from the values of \<^verbatim>\<open>count\<close> and
  \<^verbatim>\<open>transcript_ids\<close>: a field \<^verbatim>\<open>-\<close> is counted and kept, any other field gives the
  second part of its split at \<^verbatim>\<open>|\<close> (IndexError when it has no \<^verbatim>\<open>|\<close>).
\<close>

fun transcripts_loop ::
  "string list \<Rightarrow> nat \<Rightarrow> string list \<Rightarrow> error + (nat \<times> string list)" where
  "transcripts_loop [] count transcript_ids = Inr (count, transcript_ids)"
| "transcripts_loop (transcript # transcripts) count transcript_ids =
     (if transcript = ''-'' then
        transcripts_loop transcripts (count + 1) (transcript_ids @ [transcript])
      else
        (case getitem (split_sep CHR ''|'' transcript) 1 of
           Inl e \<Rightarrow> Inl e
         | Inr transcript_id \<Rightarrow>
             transcripts_loop transcripts count (transcript_ids @ [transcript_id])))"

text \<open>
  The body of the outer loop (lines 23 to 47) for one line of the tracking file, on the
  three dictionaries. Each of the three branches reads \<^verbatim>\<open>line[0]\<close>, which raises
  IndexError on a line without fields; a count other than 1 and 2 takes the last branch.
\<close>

type_synonym tracking_dict = "(string, string list) dict"

fun categorize_line ::
  "tracking_dict \<times> tracking_dict \<times> tracking_dict \<Rightarrow> string
     \<Rightarrow> error + (tracking_dict \<times> tracking_dict \<times> tracking_dict)" where
  "categorize_line (three_match, two_match, no_match) l =
     (let line = split l; transcripts = drop 4 line in
      case transcripts_loop transcripts 0 [] of
        Inl e \<Rightarrow> Inl e
      | Inr (count, transcript_ids) \<Rightarrow>
          (case getitem line 0 of
             Inl e \<Rightarrow> Inl e
           | Inr tcons_id \<Rightarrow>
               if count = 1 then
                 Inr (three_match, setitem two_match tcons_id transcript_ids, no_match)
               else if count = 2 then
                 Inr (three_match, two_match, setitem no_match tcons_id transcript_ids)
               else
                 Inr (setitem three_match tcons_id transcript_ids, two_match, no_match)))"

fun categorize_loop ::
  "tracking_dict \<times> tracking_dict \<times> tracking_dict \<Rightarrow> string list
     \<Rightarrow> error + (tracking_dict \<times> tracking_dict \<times> tracking_dict)" where
  "categorize_loop dicts [] = Inr dicts"
| "categorize_loop dicts (l # tracking) =
     (case categorize_line dicts l of
        Inl e \<Rightarrow> Inl e
      | Inr dicts' \<Rightarrow> categorize_loop dicts' tracking)"

text \<open>
  \<^verbatim>\<open>categorize_tracking(tracking_file)\<close> on the lines of the tracking file: the
  dictionaries \<^verbatim>\<open>three_match\<close>, \<^verbatim>\<open>two_match\<close> and \<^verbatim>\<open>no_match\<close>, in this order.
\<close>

definition categorize_tracking ::
  "string list \<Rightarrow> error + (tracking_dict \<times> tracking_dict \<times> tracking_dict)" where
  "categorize_tracking tracking = categorize_loop ([], [], []) tracking"

subsection \<open>gtf\<close>

text \<open>
  \<^verbatim>\<open>gtf\<close> builds a \<^verbatim>\<open>defaultdict(list)\<close> and returns it as it is, and
  \<^verbatim>\<open>main\<close> hands the three it builds to \<^verbatim>\<open>write\<close>. Subscripting a
  \<^verbatim>\<open>defaultdict(list)\<close> with a key it does not have raises nothing: it stores an empty
  list under the key and returns it. So \<^verbatim>\<open>d[k]\<close> gives a value and the dictionary
  after the access.
\<close>

type_synonym gtf_dict = "(string, string list) dict"

definition defaultdict_getitem :: "gtf_dict \<Rightarrow> string \<Rightarrow> string list \<times> gtf_dict" where
  "defaultdict_getitem d k =
     (case map_of d k of Some v \<Rightarrow> (v, d) | None \<Rightarrow> ([], setitem d k []))"

text \<open>\<^verbatim>\<open>line.startswith("#")\<close>.\<close>

definition startswith_hash :: "string \<Rightarrow> bool" where
  "startswith_hash line = (case line of [] \<Rightarrow> False | c # cs \<Rightarrow> c = CHR ''#'')"

text \<open>
  The loop of \<^verbatim>\<open>gtf\<close> (lines 60 to 68): comments and gene lines are skipped, any other
  line is appended, without its line feed, to the list of its transcript id.
\<close>

fun gtf_loop :: "gtf_dict \<Rightarrow> string list \<Rightarrow> error + gtf_dict" where
  "gtf_loop gtf_dict [] = Inr gtf_dict"
| "gtf_loop gtf_dict (line # GTF) =
     (if startswith_hash line then gtf_loop gtf_dict GTF
      else
        (case getitem (split line) 2 of
           Inl e \<Rightarrow> Inl e
         | Inr kind \<Rightarrow>
             if kind = ''gene'' then gtf_loop gtf_dict GTF
             else
               (case getitem (split line) 11 of
                  Inl e \<Rightarrow> Inl e
                | Inr field \<Rightarrow>
                    let transcript_id = slice_1_m2 field;
                        (lines, gtf_dict') = defaultdict_getitem gtf_dict transcript_id
                    in gtf_loop
                         (setitem gtf_dict' transcript_id (lines @ [strip_newline line])) GTF)))"

definition gtf :: "string list \<Rightarrow> error + gtf_dict" where
  "gtf GTF = gtf_loop [] GTF"

subsection \<open>write\<close>

text \<open>The line \<^verbatim>\<open>write\<close> puts out for a line of a record: the f-string of lines 88, 92, 96.\<close>

definition match_line :: "string \<Rightarrow> string \<Rightarrow> string" where
  "match_line tcons_id line = line @ '' match_id \"'' @ tcons_id @ ''\";\<newline>''"

text \<open>
  The body of the loop of \<^verbatim>\<open>write\<close> (lines 86 to 96) for one item of the tracking
  dictionary: the strings written to \<^verbatim>\<open>out\<close> and the three GTF dictionaries after the
  iteration. \<^verbatim>\<open>transcipt_ids[n]\<close> raises IndexError on a list that is too short; the
  three dictionaries are subscripted as the \<^verbatim>\<open>defaultdict\<close>s they are.
\<close>

definition write_item ::
  "string \<times> string list \<Rightarrow> gtf_dict \<Rightarrow> gtf_dict \<Rightarrow> gtf_dict
     \<Rightarrow> error + (string list \<times> gtf_dict \<times> gtf_dict \<times> gtf_dict)" where
  "write_item item oxford flair talon =
     (let tcons_id = fst item; transcipt_ids = snd item in
      case getitem transcipt_ids 0 of
        Inl e \<Rightarrow> Inl e
      | Inr id0 \<Rightarrow>
          if id0 \<noteq> ''-'' then
            (let (lines, oxford') = defaultdict_getitem oxford id0
             in Inr (map (match_line tcons_id) lines, oxford', flair, talon))
          else
            (case getitem transcipt_ids 1 of
               Inl e \<Rightarrow> Inl e
             | Inr id1 \<Rightarrow>
                 if id1 \<noteq> ''-'' then
                   (let (lines, flair') = defaultdict_getitem flair id1
                    in Inr (map (match_line tcons_id) lines, oxford, flair', talon))
                 else
                   (case getitem transcipt_ids 2 of
                      Inl e \<Rightarrow> Inl e
                    | Inr id2 \<Rightarrow>
                        (let (lines, talon') = defaultdict_getitem talon id2
                         in Inr (map (match_line tcons_id) lines, oxford, flair, talon')))))"

text \<open>
  \<^verbatim>\<open>write(tracking_dict, oxford, flair, talon, outfile)\<close>: the loop over the items of the
  tracking dictionary, in their order. The result is what was written to the output file,
  one string for each call of \<^verbatim>\<open>out.write\<close>, and the three dictionaries as the call
  leaves them (\<^verbatim>\<open>main\<close> passes the same three objects to each of its three calls).
\<close>

fun write_gtf ::
  "tracking_dict \<Rightarrow> gtf_dict \<Rightarrow> gtf_dict \<Rightarrow> gtf_dict
     \<Rightarrow> error + (string list \<times> gtf_dict \<times> gtf_dict \<times> gtf_dict)" where
  "write_gtf [] oxford flair talon = Inr ([], oxford, flair, talon)"
| "write_gtf (item # tracking_dict) oxford flair talon =
     (case write_item item oxford flair talon of
        Inl e \<Rightarrow> Inl e
      | Inr (written, oxford', flair', talon') \<Rightarrow>
          (case write_gtf tracking_dict oxford' flair' talon' of
             Inl e \<Rightarrow> Inl e
           | Inr (rest, oxford'', flair'', talon'') \<Rightarrow>
               Inr (written @ rest, oxford'', flair'', talon'')))"

section \<open>The notions of the specification\<close>

subsection \<open>The match step\<close>

text \<open>
  The specification selects, for a tracking group, the first identifier that is not the
  sentinel \<^verbatim>\<open>-\<close> in the order of the pipelines A (oxford), B (flair), C (talon), and
  emits the record of that identifier in the index of its pipeline, each line tagged with
  the group. \<open>selected\<close> is that choice (\<open>None\<close> when the three slots hold no
  identifier), \<open>record_of\<close> the record an index holds for an identifier (no line when
  it has none), and \<open>emitted\<close> the lines of a group.
\<close>

datatype pipeline = Oxford | Flair | Talon

definition selected :: "string list \<Rightarrow> (pipeline \<times> string) option" where
  "selected transcript_ids =
     (case filter (\<lambda>slot. snd slot \<noteq> ''-'') (zip [Oxford, Flair, Talon] transcript_ids) of
        [] \<Rightarrow> None
      | slot # slots \<Rightarrow> Some slot)"

definition index_of :: "pipeline \<Rightarrow> gtf_dict \<Rightarrow> gtf_dict \<Rightarrow> gtf_dict \<Rightarrow> gtf_dict" where
  "index_of p oxford flair talon = (case p of Oxford \<Rightarrow> oxford | Flair \<Rightarrow> flair | Talon \<Rightarrow> talon)"

definition record_of :: "gtf_dict \<Rightarrow> string \<Rightarrow> string list" where
  "record_of d t = (case map_of d t of Some lines \<Rightarrow> lines | None \<Rightarrow> [])"

definition emitted :: "gtf_dict \<Rightarrow> gtf_dict \<Rightarrow> gtf_dict \<Rightarrow> string \<times> string list \<Rightarrow> string list" where
  "emitted oxford flair talon item =
     (case selected (snd item) of
        None \<Rightarrow> []
      | Some (p, t) \<Rightarrow> map (match_line (fst item)) (record_of (index_of p oxford flair talon) t))"

text \<open>
  The index of pipeline \<open>p\<close> with the identifier \<open>t\<close> registered under an empty
  record, the other two as they are.
\<close>

definition registered ::
  "pipeline \<Rightarrow> string \<Rightarrow> gtf_dict \<times> gtf_dict \<times> gtf_dict \<Rightarrow> gtf_dict \<times> gtf_dict \<times> gtf_dict" where
  "registered p t indexes =
     (case indexes of (oxford, flair, talon) \<Rightarrow>
        (case p of
           Oxford \<Rightarrow> (oxford @ [(t, [])], flair, talon)
         | Flair \<Rightarrow> (oxford, flair @ [(t, [])], talon)
         | Talon \<Rightarrow> (oxford, flair, talon @ [(t, [])])))"

text \<open>
  What a call of \<^verbatim>\<open>write\<close> may do to an index: \<open>registers_only d d'\<close> says that
  \<open>d'\<close> is \<open>d\<close> followed by new entries, each with an empty record.
  \<open>all_selected_present\<close> says that every group of the bucket selects an identifier
  and that its index has it.
\<close>

definition registers_only :: "gtf_dict \<Rightarrow> gtf_dict \<Rightarrow> bool" where
  "registers_only d d' =
     (take (length d) d' = d \<and> list_all (\<lambda>entry. snd entry = []) (drop (length d) d'))"

definition all_selected_present ::
  "tracking_dict \<Rightarrow> gtf_dict \<Rightarrow> gtf_dict \<Rightarrow> gtf_dict \<Rightarrow> bool" where
  "all_selected_present tracking_dict oxford flair talon =
     list_all
       (\<lambda>item. case selected (snd item) of
                  None \<Rightarrow> False
                | Some (p, t) \<Rightarrow> map_of (index_of p oxford flair talon) t \<noteq> None)
       tracking_dict"

text \<open>
  What \<^verbatim>\<open>write\<close> looks up for a group: the selected identifier, in the index of its
  pipeline, and for a group whose three slots hold the sentinel, the sentinel itself in the
  index of the talon pipeline. \<open>register p d slot\<close> is the index \<open>d\<close> of pipeline
  \<open>p\<close> after the look-up of \<open>slot\<close>: an identifier looked up in \<open>d\<close> that
  \<open>d\<close> does not have is appended with an empty record.
\<close>

definition looked_up :: "string list \<Rightarrow> pipeline \<times> string" where
  "looked_up transcript_ids =
     (case selected transcript_ids of Some slot \<Rightarrow> slot | None \<Rightarrow> (Talon, ''-''))"

definition register :: "pipeline \<Rightarrow> gtf_dict \<Rightarrow> pipeline \<times> string \<Rightarrow> gtf_dict" where
  "register p d slot =
     (if fst slot = p \<and> map_of d (snd slot) = None then d @ [(snd slot, [])] else d)"

subsection \<open>The tracking file\<close>

text \<open>
  The group identifier of a tracking line is its first field, and its sentinel count the
  number of fields \<^verbatim>\<open>-\<close> from the fifth field on.
\<close>

definition group_id :: "string \<Rightarrow> string" where
  "group_id l = (case split l of [] \<Rightarrow> [] | field # fields \<Rightarrow> field)"

definition sentinels :: "string \<Rightarrow> nat" where
  "sentinels l = length (filter (\<lambda>field. field = ''-'') (drop 4 (split l)))"

subsection \<open>The abundance files\<close>

text \<open>
  The three variants of abundance file: variant A is read by \<^verbatim>\<open>format_oxford\<close>
  (comma-delimited, identifier in field 0, numeric fields from field 1 on, an empty field
  counting as 0), variant B by \<^verbatim>\<open>format_talon\<close> (tab-delimited, identifier in field 3,
  numeric fields from field 11 on) and variant C by \<^verbatim>\<open>format_flair\<close> (tab-delimited,
  identifier in field 0, numeric fields from field 1 on). The rows of a file are its lines
  after the header.
\<close>

datatype variant = VariantA | VariantB | VariantC

definition AbundanceReader :: "variant \<Rightarrow> string list \<Rightarrow> error + (string, number) dict" where
  "AbundanceReader v file =
     (case v of
        VariantA \<Rightarrow>
          (case format_oxford file of
             Inl e \<Rightarrow> Inl e
           | Inr d \<Rightarrow> Inr (map (\<lambda>item. (fst item, PyInt (snd item))) d))
      | VariantB \<Rightarrow>
          (case format_talon file of
             Inl e \<Rightarrow> Inl e
           | Inr d \<Rightarrow> Inr (map (\<lambda>item. (fst item, PyInt (snd item))) d))
      | VariantC \<Rightarrow> format_flair file)"

definition row_fields :: "variant \<Rightarrow> string \<Rightarrow> string list" where
  "row_fields v l =
     (case v of
        VariantA \<Rightarrow> split_sep CHR '','' (strip_newline l)
      | VariantB \<Rightarrow> split_sep (CHR 0x09) (strip_newline l)
      | VariantC \<Rightarrow> split_sep (CHR 0x09) (strip_newline l))"

definition row_identifier :: "variant \<Rightarrow> string \<Rightarrow> string" where
  "row_identifier v l =
     (case getitem (row_fields v l) (case v of VariantA \<Rightarrow> 0 | VariantB \<Rightarrow> 3 | VariantC \<Rightarrow> 0) of
        Inl e \<Rightarrow> []
      | Inr transcript_id \<Rightarrow> transcript_id)"

definition numeric_fields :: "variant \<Rightarrow> string \<Rightarrow> string list" where
  "numeric_fields v l =
     drop (case v of VariantA \<Rightarrow> 1 | VariantB \<Rightarrow> 11 | VariantC \<Rightarrow> 1) (row_fields v l)"

text \<open>
  The value of a numeric field of variant A or B is the integer it is written as, 0 for
  an empty field. A numeric field of variant C is a decimal number that is integral in
  value and written with a fractional part: digits, a point and zeros. Its value is the
  number its digits spell.
\<close>

definition integer_field :: "string \<Rightarrow> int" where
  "integer_field field =
     (if field = [] then 0 else (case int_py field of Inl e \<Rightarrow> 0 | Inr n \<Rightarrow> n))"

definition integral_field :: "string \<Rightarrow> nat option" where
  "integral_field field =
     (let digits = takeWhile is_digit field in
      case dropWhile is_digit field of
        [] \<Rightarrow> None
      | c # zeros \<Rightarrow>
          if c = CHR ''.'' \<and> digits \<noteq> [] \<and> zeros \<noteq> [] \<and> list_all (\<lambda>z. z = CHR ''0'') zeros
          then Some (digits_value digits) else None)"

definition field_value :: "variant \<Rightarrow> string \<Rightarrow> rat" where
  "field_value v field =
     (case v of
        VariantA \<Rightarrow> rat_of_int (integer_field field)
      | VariantB \<Rightarrow> rat_of_int (integer_field field)
      | VariantC \<Rightarrow> (case integral_field field of None \<Rightarrow> 0 | Some n \<Rightarrow> rat_of_nat n))"

text \<open>
  \<open>fields_total\<close> is the sum of all numeric fields of all rows, and
  \<open>values_total\<close> the sum of the values of a reader's dictionary, which has no sum when
  a value is an infinity or not a number.
\<close>

definition fields_total :: "variant \<Rightarrow> string list \<Rightarrow> rat" where
  "fields_total v rows = sum_list (map (field_value v) (concat (map (numeric_fields v) rows)))"

fun number_value :: "number \<Rightarrow> rat option" where
  "number_value (PyInt i) = Some (rat_of_int i)"
| "number_value (PyFloat (Finite q)) = Some q"
| "number_value (PyFloat NegZero) = Some 0"
| "number_value (PyFloat PInf) = None"
| "number_value (PyFloat NInf) = None"
| "number_value (PyFloat NaN) = None"

fun values_total :: "(string, number) dict \<Rightarrow> rat option" where
  "values_total [] = Some 0"
| "values_total (item # d) =
     (case number_value (snd item) of
        None \<Rightarrow> None
      | Some q \<Rightarrow> (case values_total d of None \<Rightarrow> None | Some r \<Rightarrow> Some (q + r)))"

text \<open>
  A row of variant C is valid when each of its numeric fields is such an integral decimal
  number; \<open>row_total\<close> is the sum of the fields of a row. A row is exact when it is
  valid and its total is at most \<open>2 ^ 53\<close>, the bound up to which every natural number
  is a double. \<open>flair_count\<close> is the count whose value is the total of the row: a
  \<^verbatim>\<open>float\<close>, and the \<^verbatim>\<open>int\<close> 0 for a row without numeric fields.
\<close>

definition row_total :: "string \<Rightarrow> nat" where
  "row_total l =
     sum_list (map (\<lambda>field. case integral_field field of None \<Rightarrow> 0 | Some n \<Rightarrow> n)
                 (numeric_fields VariantC l))"

definition valid_row :: "string \<Rightarrow> bool" where
  "valid_row l = list_all (\<lambda>field. integral_field field \<noteq> None) (numeric_fields VariantC l)"

definition exact_row :: "string \<Rightarrow> bool" where
  "exact_row l = (valid_row l \<and> row_total l \<le> 2 ^ 53)"

definition flair_count :: "string \<Rightarrow> number" where
  "flair_count l =
     (if numeric_fields VariantC l = [] then PyInt 0
      else PyFloat (Finite (rat_of_nat (row_total l))))"

section \<open>Sample inputs\<close>

text \<open>
  An annotation file for \<^verbatim>\<open>combine\<close>: an exon line before the first transcript, the
  transcript \<^verbatim>\<open>T1\<close> with its exon, and the transcript \<^verbatim>\<open>T2\<close> of gene \<^verbatim>\<open>G5\<close>.
\<close>

definition exon_T0 :: string where
  "exon_T0 = ''1 ox exon 1 5 . + . gene_id \"G1\"; transcript_id \"T0\";\<newline>''"

definition transcript_T1 :: string where
  "transcript_T1 = ''1 ox transcript 1 9 . + . gene_id \"G1\"; transcript_id \"T1\";\<newline>''"

definition exon_T1 :: string where
  "exon_T1 = ''1 ox exon 1 9 . + . gene_id \"G1\"; transcript_id \"T1\";\<newline>''"

definition transcript_T2 :: string where
  "transcript_T2 = ''1 ox transcript 1 9 . + . gene_id \"G5\"; transcript_id \"T2\";\<newline>''"

definition exon_T2 :: string where
  "exon_T2 = ''1 ox exon 1 9 . + . gene_id \"G5\"; transcript_id \"T2\";\<newline>''"

definition sample_annotation :: "string list" where
  "sample_annotation = [exon_T0, transcript_T1, exon_T1, transcript_T2]"

definition sample_counts :: "(string, int) dict" where
  "sample_counts = [(''T1'', 0), (''T2_G5'', 3)]"

text \<open>Tracking lines with no, one and two sentinels, and a second line of the first group.\<close>

definition tracking_full :: string where
  "tracking_full = ''TCONS_1 XLOC_1 - u q1:G1|T1|1 q2:G1|F1|1 q3:G1|N1|1\<newline>''"

definition tracking_two :: string where
  "tracking_two = ''TCONS_2 XLOC_2 - u q1:G5|T2|1 q2:G5|F2|1 -\<newline>''"

definition tracking_one :: string where
  "tracking_one = ''TCONS_3 XLOC_3 - u - - q3:G7|N3|1\<newline>''"

definition tracking_again :: string where
  "tracking_again = ''TCONS_1 XLOC_1 - u q1:G1|T4|1 q2:G1|F4|1 q3:G1|N4|1\<newline>''"

text \<open>
  A GTF file of the oxford pipeline with a comment, a gene line and the record of
  \<^verbatim>\<open>T1\<close>, the index \<^verbatim>\<open>gtf\<close> builds from it, and a tracking line whose only
  identifier, \<^verbatim>\<open>T9\<close>, is in no index.
\<close>

definition sample_index_file :: "string list" where
  "sample_index_file =
     [''# transcripts of the oxford pipeline\<newline>'',
      ''1 ox gene 1 9 . + . gene_id \"G1\";\<newline>'',
      transcript_T1, exon_T1]"

definition sample_index :: gtf_dict where
  "sample_index =
     [(''T1'', [''1 ox transcript 1 9 . + . gene_id \"G1\"; transcript_id \"T1\";'',
                ''1 ox exon 1 9 . + . gene_id \"G1\"; transcript_id \"T1\";''])]"

definition tracking_absent :: string where
  "tracking_absent = ''TCONS_9 XLOC_9 - u q1:G9|T9|1 - -\<newline>''"

text \<open>
  A bucket with three groups: one whose oxford transcript \<^verbatim>\<open>T1\<close> the sample index
  has, one whose oxford transcript \<^verbatim>\<open>T2\<close> it does not have, and one whose three slots
  hold the sentinel.
\<close>

definition bucket_mixed :: tracking_dict where
  "bucket_mixed =
     [(''TCONS_1'', [''T1'', ''F1'', ''N1'']), (''TCONS_2'', [''T2'', ''F2'', ''-'']),
      (''TCONS_0'', [''-'', ''-'', ''-''])]"

text \<open>An abundance file of variant A in which the identifier \<^verbatim>\<open>T1\<close> has two rows.\<close>

definition abundance_repeated :: "string list" where
  "abundance_repeated = [''ids,s1,s2,s3\<newline>'', ''T1,4,,2\<newline>'', ''T1,1,0,0\<newline>'']"

definition abundance_distinct :: "string list" where
  "abundance_distinct = [''ids,s1,s2,s3\<newline>'', ''T1,4,,2\<newline>'', ''T2,1,0,0\<newline>'']"

text \<open>
  An abundance file of variant B: the fields of a line are joined by tabs, the identifier
  is the fourth field and the counts are the two last fields.
\<close>

definition tab_line :: "string list \<Rightarrow> string" where
  "tab_line fields =
     concat (map (\<lambda>field. field @ [CHR 0x09]) (butlast fields)) @ last fields @ ''\<newline>''"

definition abundance_talon :: "string list" where
  "abundance_talon =
     [tab_line [''gene_ID'', ''transcript_ID'', ''annot_gene_id'', ''annot_transcript_id'',
                ''annot_gene_name'', ''annot_transcript_name'', ''n_exons'', ''length'',
                ''gene_novelty'', ''transcript_novelty'', ''ISM_subtype'', ''s1'', ''s2''],
      tab_line [''1'', ''7'', ''G1'', ''N1'', ''g'', ''t'', ''2'', ''900'', ''Known'', ''Known'',
                ''None'', ''3'', ''4''],
      tab_line [''1'', ''8'', ''G1'', ''N2'', ''g'', ''t'', ''3'', ''950'', ''Known'', ''NIC'',
                ''None'', ''0'', ''12'']]"

text \<open>
  Two abundance files of variant C. In the second the fields of the row sum to
  \<open>2 ^ 53 + 2\<close>.
\<close>

definition flair_sample :: "string list" where
  "flair_sample =
     [tab_line [''ids'', ''s1'', ''s2''],
      tab_line [''T1'', ''3.0'', ''4.0''],
      tab_line [''T2'', ''0.0'', ''12.0'']]"

definition flair_large :: "string list" where
  "flair_large =
     [tab_line [''ids'', ''s1'', ''s2'', ''s3''],
      tab_line [''T1'', ''9007199254740992.0'', ''1.0'', ''1.0'']]"

section \<open>Properties of combine\<close>

subsection \<open>One iteration, and the loop on parts of the file\<close>

text \<open>
  A transcript line that does not end the run is written once: with its count to the
  output file, and then the flag is set, or as it is to the file of removed transcripts,
  and then the flag is cleared. Any other line is written as it is to the file the flag
  names, and leaves the flag alone.
\<close>

lemma combine_line_header:
  assumes "combine_line is_zero str origin counts w line = Inr (w', effs)"
      and "record_kind line = Inr ''transcript''"
  shows "(w' \<and> (\<exists>count. file_writes effs =
              [(Outfile, slice_m1 line @ '' TPM \"'' @ str count @ ''\";\<newline>'')]))
         \<or> (\<not> w' \<and> file_writes effs = [(Removed_out, slice_m1 line @ ''\<newline>'')])"
  using assms unfolding combine_line_def record_kind_def
  by (auto simp: Let_def split: sum.splits option.splits if_splits)

lemma combine_line_other:
  assumes "combine_line is_zero str origin counts w line = Inr (w', effs)"
      and "record_kind line \<noteq> Inr ''transcript''"
  shows "w' = w \<and> effs = [FileWrite (if w then Outfile else Removed_out) line]"
  using assms unfolding combine_line_def record_kind_def
  by (auto split: sum.splits if_splits)

lemma combine_loop_append_eq:
  "combine_loop is_zero str origin counts w (xs @ ys) =
     (case combine_loop is_zero str origin counts w xs of
        Inl e \<Rightarrow> Inl e
      | Inr (w1, es1) \<Rightarrow>
          (case combine_loop is_zero str origin counts w1 ys of
             Inl e \<Rightarrow> Inl e
           | Inr (w2, es2) \<Rightarrow> Inr (w2, es1 @ es2)))"
  by (induction xs arbitrary: w) (simp_all split: sum.splits prod.splits)

lemma combine_loop_append:
  "combine_loop is_zero str origin counts w (xs @ ys) = Inr (w2, es) \<Longrightarrow>
   \<exists>w1 es1 es2. combine_loop is_zero str origin counts w xs = Inr (w1, es1)
      \<and> combine_loop is_zero str origin counts w1 ys = Inr (w2, es2) \<and> es = es1 @ es2"
  by (simp add: combine_loop_append_eq split: sum.splits prod.splits)

lemma combine_loop_length:
  "combine_loop is_zero str origin counts w xs = Inr (w2, es) \<Longrightarrow> length es = length xs"
  by (induction xs arbitrary: w es) (auto split: sum.splits prod.splits)

lemma combine_loop_others:
  "\<forall>l \<in> set xs. record_kind l \<noteq> Inr ''transcript'' \<Longrightarrow>
   combine_loop is_zero str origin counts w xs = Inr (w2, es) \<Longrightarrow>
   w2 = w \<and> es = map (\<lambda>l. [FileWrite (if w then Outfile else Removed_out) l]) xs"
proof (induction xs arbitrary: es)
  case Nil
  then show ?case by simp
next
  case (Cons x xs)
  from Cons.prems(2) obtain w1 e1 es1 where
    step: "combine_line is_zero str origin counts w x = Inr (w1, e1)" and
    rest: "combine_loop is_zero str origin counts w1 xs = Inr (w2, es1)" and
    es: "es = e1 # es1"
    by (auto split: sum.splits prod.splits)
  from Cons.prems(1) have "record_kind x \<noteq> Inr ''transcript''" by simp
  with step have w1: "w1 = w" and e1: "e1 = [FileWrite (if w then Outfile else Removed_out) x]"
    using combine_line_other by blast+
  from Cons.IH[of es1] Cons.prems(1) rest w1 have
    "w2 = w \<and> es1 = map (\<lambda>l. [FileWrite (if w then Outfile else Removed_out) l]) xs"
    by simp
  with es e1 show ?case by simp
qed

lemma combine_loop_header_at:
  assumes run: "combine_loop is_zero str origin counts w GTF = Inr (w2, effects)"
      and i: "i < length GTF"
      and kind: "record_kind (GTF ! i) = Inr ''transcript''"
  shows "(\<exists>count. file_writes (effects ! i) =
            [(Outfile, slice_m1 (GTF ! i) @ '' TPM \"'' @ str count @ ''\";\<newline>'')])
         \<or> file_writes (effects ! i) = [(Removed_out, slice_m1 (GTF ! i) @ ''\<newline>'')]"
proof -
  from i have "GTF = take i GTF @ GTF ! i # drop (Suc i) GTF"
    by (rule id_take_nth_drop)
  with run have "combine_loop is_zero str origin counts w
      (take i GTF @ GTF ! i # drop (Suc i) GTF) = Inr (w2, effects)"
    by simp
  then obtain w1 es1 es2 where
    pre: "combine_loop is_zero str origin counts w (take i GTF) = Inr (w1, es1)" and
    post: "combine_loop is_zero str origin counts w1 (GTF ! i # drop (Suc i) GTF) = Inr (w2, es2)" and
    es: "effects = es1 @ es2"
    using combine_loop_append by blast
  from post obtain w' e rest where
    step: "combine_line is_zero str origin counts w1 (GTF ! i) = Inr (w', e)" and
    es2: "es2 = e # rest"
    by (auto split: sum.splits prod.splits)
  from pre i have "length es1 = i"
    by (simp add: combine_loop_length)
  with es es2 have "effects ! i = e" by (auto simp: nth_append)
  with combine_line_header[OF step kind] show ?thesis by blast
qed

lemma combine_loop_follow:
  assumes run: "combine_loop is_zero str origin counts w (pre @ h # mid @ l # post) = Inr (w2, effects)"
      and h: "record_kind h = Inr ''transcript''"
      and mid: "\<forall>x \<in> set mid. record_kind x \<noteq> Inr ''transcript''"
      and l: "record_kind l \<noteq> Inr ''transcript''"
  shows "\<exists>s x. file_writes (effects ! length pre) = [(s, x)]
           \<and> effects ! Suc (length pre + length mid) = [FileWrite s l]"
proof -
  from run obtain w1 es1 es2 where
    pre: "combine_loop is_zero str origin counts w pre = Inr (w1, es1)" and
    tl: "combine_loop is_zero str origin counts w1 (h # mid @ l # post) = Inr (w2, es2)" and
    es: "effects = es1 @ es2"
    using combine_loop_append by blast
  from tl obtain wh e es3 where
    step: "combine_line is_zero str origin counts w1 h = Inr (wh, e)" and
    rest: "combine_loop is_zero str origin counts wh ((mid @ [l]) @ post) = Inr (w2, es3)" and
    es2: "es2 = e # es3"
    by (auto split: sum.splits prod.splits)
  from rest obtain w3 es4 es5 where
    dep: "combine_loop is_zero str origin counts wh (mid @ [l]) = Inr (w3, es4)" and
    es3: "es3 = es4 @ es5"
    using combine_loop_append by blast
  from mid l have "\<forall>x \<in> set (mid @ [l]). record_kind x \<noteq> Inr ''transcript''"
    by simp
  from combine_loop_others[OF this dep]
  have es4: "es4 = map (\<lambda>l. [FileWrite (if wh then Outfile else Removed_out) l]) (mid @ [l])"
    by simp
  have len: "length es1 = length pre"
    using pre by (simp add: combine_loop_length)
  have at_h: "effects ! length pre = e"
    using es es2 len by (simp add: nth_append)
  have at_l: "effects ! Suc (length pre + length mid) =
      [FileWrite (if wh then Outfile else Removed_out) l]"
    using es es2 es3 es4 len by (simp add: nth_append)
  from combine_line_header[OF step h]
  have "\<exists>x. file_writes e = [(if wh then Outfile else Removed_out, x)]"
    by auto
  with at_h at_l show ?thesis by auto
qed

subsection \<open>The run on a sample annotation file\<close>

lemmas sample_defs =
  sample_annotation_def sample_counts_def exon_T0_def transcript_T1_def exon_T1_def
  transcript_T2_def exon_T2_def

lemma sample_kinds:
  "record_kind exon_T0 = Inr ''exon''" "record_kind transcript_T1 = Inr ''transcript''"
  "record_kind exon_T1 = Inr ''exon''" "record_kind transcript_T2 = Inr ''transcript''"
  by (simp_all add: record_kind_def split_def getitem_def is_space_def sample_defs)

lemma sample_run:
  "combine (\<lambda>count. count = 0) str_int ''results/sample.gtf'' sample_annotation sample_counts =
     Inr [[FileWrite Outfile exon_T0],
          [LogWarning ''ORIGIN: sample.gtf 0 count: T1'', FileWrite Removed_out transcript_T1],
          [FileWrite Removed_out exon_T1],
          [FileWrite Outfile
             ''1 ox transcript 1 9 . + . gene_id \"G5\"; transcript_id \"T2\"; TPM \"3\";\<newline>'']]"
  by (simp add: combine_def combine_line_def split_def split_sep_def getitem_def is_space_def
      slice_1_m2_def slice_m1_def str_int_def str_nat.simps sample_defs)

subsection \<open>The claims about combine\<close>

text \<open>
  C5. In a run of \<^verbatim>\<open>combine\<close> that ends without an exception, the iteration of every
  transcript line of the annotation file writes exactly one string to exactly one of the
  two files: the line with its count appended to the output file, or the line as it is
  to the file of removed transcripts. It is never written to both and never to neither.
\<close>

theorem combine_header_written_once:
  assumes "combine is_zero str gtf_file GTF counts = Inr effects"
      and "i < length GTF"
      and "record_kind (GTF ! i) = Inr ''transcript''"
  shows "(\<exists>count. file_writes (effects ! i) =
            [(Outfile, slice_m1 (GTF ! i) @ '' TPM \"'' @ str count @ ''\";\<newline>'')])
         \<or> file_writes (effects ! i) = [(Removed_out, slice_m1 (GTF ! i) @ ''\<newline>'')]"
proof -
  from assms(1) obtain w2 where
    "combine_loop is_zero str (last (split_sep CHR ''/'' gtf_file)) counts True GTF = Inr (w2, effects)"
    by (auto simp: combine_def split: sum.splits prod.splits)
  from combine_loop_header_at[OF this assms(2) assms(3)] show ?thesis .
qed

text \<open>
  On the sample file the transcript \<^verbatim>\<open>T1\<close>, whose count is 0, goes to the file of
  removed transcripts only.
\<close>

theorem combine_header_written_once_witness:
  "combine (\<lambda>count. count = 0) str_int ''results/sample.gtf'' sample_annotation sample_counts =
     Inr [[FileWrite Outfile exon_T0],
          [LogWarning ''ORIGIN: sample.gtf 0 count: T1'', FileWrite Removed_out transcript_T1],
          [FileWrite Removed_out exon_T1],
          [FileWrite Outfile
             ''1 ox transcript 1 9 . + . gene_id \"G5\"; transcript_id \"T2\"; TPM \"3\";\<newline>'']]
   \<and> record_kind (sample_annotation ! 1) = Inr ''transcript''
   \<and> file_writes [LogWarning ''ORIGIN: sample.gtf 0 count: T1'', FileWrite Removed_out transcript_T1]
       = [(Removed_out, slice_m1 (sample_annotation ! 1) @ ''\<newline>'')]"
proof -
  have kind: "record_kind (sample_annotation ! 1) = Inr ''transcript''"
    by (simp add: sample_annotation_def sample_kinds)
  have len: "1 < length sample_annotation"
    by (simp add: sample_annotation_def)
  from combine_header_written_once[OF sample_run len kind]
  have "file_writes [LogWarning ''ORIGIN: sample.gtf 0 count: T1'', FileWrite Removed_out transcript_T1]
       = [(Removed_out, slice_m1 (sample_annotation ! 1) @ ''\<newline>'')]"
    by simp
  with sample_run kind show ?thesis by simp
qed

text \<open>
  C6. In a run of \<^verbatim>\<open>combine\<close> that ends without an exception, a line \<open>i\<close> that is
  not a transcript line, with the transcript line \<open>j\<close> the last one before it, is
  written as it is to the file that received the transcript line: an exon after a removed
  transcript goes to the file of removed transcripts.
\<close>

theorem combine_dependent_line_follows_header:
  assumes run: "combine is_zero str gtf_file GTF counts = Inr effects"
      and ji: "j < i" and i: "i < length GTF"
      and header: "record_kind (GTF ! j) = Inr ''transcript''"
      and between: "\<forall>k. j < k \<and> k \<le> i \<longrightarrow> record_kind (GTF ! k) \<noteq> Inr ''transcript''"
  shows "\<exists>s x. file_writes (effects ! j) = [(s, x)] \<and> effects ! i = [FileWrite s (GTF ! i)]"
proof -
  from run obtain w2 where loop:
    "combine_loop is_zero str (last (split_sep CHR ''/'' gtf_file)) counts True GTF = Inr (w2, effects)"
    by (auto simp: combine_def split: sum.splits prod.splits)
  define pre where "pre = take j GTF"
  define mid where "mid = drop (Suc j) (take i GTF)"
  define post where "post = drop (Suc i) GTF"
  have j': "j < length (take i GTF)" using ji i by simp
  have "take i GTF = take j (take i GTF) @ take i GTF ! j # drop (Suc j) (take i GTF)"
    using j' by (rule id_take_nth_drop)
  then have front: "take i GTF = pre @ GTF ! j # mid"
    using ji by (simp add: pre_def mid_def min_def)
  have "GTF = take i GTF @ GTF ! i # drop (Suc i) GTF"
    using i by (rule id_take_nth_drop)
  with front have decomp: "GTF = pre @ GTF ! j # mid @ GTF ! i # post"
    by (simp add: post_def)
  have len_pre: "length pre = j" using ji i by (simp add: pre_def)
  have len_mid: "length mid = i - Suc j" using i by (simp add: mid_def)
  have mids: "\<forall>x \<in> set mid. record_kind x \<noteq> Inr ''transcript''"
  proof
    fix x assume "x \<in> set mid"
    then obtain n where n: "n < length mid" and x: "x = mid ! n"
      by (auto simp: in_set_conv_nth)
    from n len_mid have "Suc j + n < i" by simp
    with x i ji have "x = GTF ! (Suc j + n)" by (simp add: mid_def)
    moreover have "j < Suc j + n \<and> Suc j + n \<le> i" using \<open>Suc j + n < i\<close> by simp
    ultimately show "record_kind x \<noteq> Inr ''transcript''" using between by blast
  qed
  have last: "record_kind (GTF ! i) \<noteq> Inr ''transcript''" using between ji by blast
  from loop decomp have
    "combine_loop is_zero str (last (split_sep CHR ''/'' gtf_file)) counts True
       (pre @ GTF ! j # mid @ GTF ! i # post) = Inr (w2, effects)"
    by simp
  from combine_loop_follow[OF this header mids last]
  have "\<exists>s x. file_writes (effects ! length pre) = [(s, x)]
           \<and> effects ! Suc (length pre + length mid) = [FileWrite s (GTF ! i)]" .
  moreover have "Suc (length pre + length mid) = i" using len_pre len_mid ji by simp
  ultimately show ?thesis using len_pre by simp
qed

text \<open>On the sample file the exon of the removed transcript \<^verbatim>\<open>T1\<close> is removed with it.\<close>

theorem combine_dependent_line_follows_header_witness:
  "record_kind (sample_annotation ! 1) = Inr ''transcript''
   \<and> record_kind (sample_annotation ! 2) = Inr ''exon''
   \<and> (\<exists>effects. combine (\<lambda>count. count = 0) str_int ''results/sample.gtf'' sample_annotation sample_counts = Inr effects
        \<and> (\<exists>x. file_writes (effects ! 1) = [(Removed_out, x)])
        \<and> effects ! 2 = [FileWrite Removed_out (sample_annotation ! 2)])"
proof -
  have header: "record_kind (sample_annotation ! 1) = Inr ''transcript''"
    and exon: "record_kind (sample_annotation ! 2) = Inr ''exon''"
    by (simp_all add: sample_annotation_def sample_kinds)
  have between: "\<forall>k. 1 < k \<and> k \<le> 2 \<longrightarrow> record_kind (sample_annotation ! k) \<noteq> Inr ''transcript''"
  proof (intro allI impI)
    fix k :: nat assume "1 < k \<and> k \<le> 2"
    then have "k = 2" by simp
    with exon show "record_kind (sample_annotation ! k) \<noteq> Inr ''transcript''" by simp
  qed
  have "(1::nat) < 2" and "2 < length sample_annotation"
    by (simp_all add: sample_annotation_def)
  from combine_dependent_line_follows_header[OF sample_run this header between]
  obtain s x where
    "file_writes [LogWarning ''ORIGIN: sample.gtf 0 count: T1'', FileWrite Removed_out transcript_T1] = [(s, x)]"
    "[FileWrite Removed_out exon_T1] = [FileWrite s (sample_annotation ! 2)]"
    by auto
  then have "[FileWrite Removed_out exon_T1] = [FileWrite Removed_out (sample_annotation ! 2)]"
    by simp
  with sample_run header exon show ?thesis by simp
qed

text \<open>
  C10. In a run of \<^verbatim>\<open>combine\<close> that ends without an exception, a line that is not a
  transcript line and has no transcript line before it is written as it is to the
  output file: the flag starts as \<^verbatim>\<open>True\<close>.
\<close>

theorem combine_lines_before_first_header:
  assumes run: "combine is_zero str gtf_file GTF counts = Inr effects"
      and i: "i < length GTF"
      and none: "\<forall>k. k \<le> i \<longrightarrow> record_kind (GTF ! k) \<noteq> Inr ''transcript''"
  shows "effects ! i = [FileWrite Outfile (GTF ! i)]"
proof -
  from run obtain w2 where loop:
    "combine_loop is_zero str (last (split_sep CHR ''/'' gtf_file)) counts True GTF = Inr (w2, effects)"
    by (auto simp: combine_def split: sum.splits prod.splits)
  have "GTF = take (Suc i) GTF @ drop (Suc i) GTF" by simp
  with loop have "combine_loop is_zero str (last (split_sep CHR ''/'' gtf_file)) counts True
      (take (Suc i) GTF @ drop (Suc i) GTF) = Inr (w2, effects)"
    by simp
  then obtain w1 es1 es2 where
    front: "combine_loop is_zero str (last (split_sep CHR ''/'' gtf_file)) counts True
      (take (Suc i) GTF) = Inr (w1, es1)" and
    es: "effects = es1 @ es2"
    using combine_loop_append by blast
  have "\<forall>x \<in> set (take (Suc i) GTF). record_kind x \<noteq> Inr ''transcript''"
  proof
    fix x assume "x \<in> set (take (Suc i) GTF)"
    then obtain n where "n < Suc i" and "x = GTF ! n"
      using i by (auto simp: in_set_conv_nth)
    with none show "record_kind x \<noteq> Inr ''transcript''" by simp
  qed
  from combine_loop_others[OF this front]
  have es1: "es1 = map (\<lambda>l. [FileWrite Outfile l]) (take (Suc i) GTF)" by simp
  with i have "length es1 = Suc i" by simp
  with es es1 i show ?thesis by (simp add: nth_append)
qed

text \<open>On the sample file the exon before the first transcript goes to the output file.\<close>

theorem combine_lines_before_first_header_witness:
  "record_kind (sample_annotation ! 0) = Inr ''exon''
   \<and> (\<exists>effects. combine (\<lambda>count. count = 0) str_int ''results/sample.gtf'' sample_annotation sample_counts = Inr effects
        \<and> effects ! 0 = [FileWrite Outfile (sample_annotation ! 0)])"
proof -
  have exon: "record_kind (sample_annotation ! 0) = Inr ''exon''"
    by (simp add: sample_annotation_def sample_kinds)
  have none: "\<forall>k. k \<le> 0 \<longrightarrow> record_kind (sample_annotation ! k) \<noteq> Inr ''transcript''"
    using exon by simp
  have "0 < length sample_annotation"
    by (simp add: sample_annotation_def)
  from combine_lines_before_first_header[OF sample_run this none]
  have "[FileWrite Outfile exon_T0] = [FileWrite Outfile (sample_annotation ! 0)]"
    by simp
  with sample_run exon show ?thesis by simp
qed

text \<open>
  C2. The claim asks that a transcript whose own identifier has no count, and whose
  fallback identifier (transcript id, underscore, gene id) has the count 0, be removed
  like any transcript with the count 0. The code does not test the count it finds under
  the fallback identifier: the transcript \<^verbatim>\<open>T2\<close> of gene \<^verbatim>\<open>G5\<close>, with the count 0
  under \<^verbatim>\<open>T2_G5\<close>, is written to the output file with \<^verbatim>\<open>TPM "0"\<close>, nothing is
  logged, nothing goes to the file of removed transcripts, and its exon follows it to
  the output file. The comment before line 143 of the script says that a transcript
  arriving there has at least one count.
\<close>

theorem combine_fallback_count_zero_is_kept:
  "combine (\<lambda>count. count = 0) str_int ''results/sample.gtf'' [transcript_T2, exon_T2] [(''T2_G5'', 0)] =
     Inr [[FileWrite Outfile
             ''1 ox transcript 1 9 . + . gene_id \"G5\"; transcript_id \"T2\"; TPM \"0\";\<newline>''],
          [FileWrite Outfile exon_T2]]"
  by (simp add: combine_def combine_line_def split_def split_sep_def getitem_def is_space_def
      slice_1_m2_def slice_m1_def str_int_def str_nat.simps sample_defs)

section \<open>Properties of write\<close>

subsection \<open>Dictionaries\<close>

lemma setitem_absent: "map_of d k = None \<Longrightarrow> setitem d k v = d @ [(k, v)]"
  by (induction d) (auto split: if_splits)

lemma map_of_setitem: "map_of (setitem d k v) = (map_of d)(k \<mapsto> v)"
  by (induction d) (auto simp: fun_eq_iff)

lemma keys_setitem: "fst ` set (setitem d k v) = insert k (fst ` set d)"
  using dom_map_of_conv_image_fst[of "setitem d k v"] dom_map_of_conv_image_fst[of d]
  by (simp add: map_of_setitem)

lemma length_setitem:
  "length (setitem d k v) = (if map_of d k = None then Suc (length d) else length d)"
  by (induction d) auto

lemma defaultdict_getitem_eq:
  "defaultdict_getitem d k =
     (record_of d k, if map_of d k = None then d @ [(k, [])] else d)"
  by (auto simp: defaultdict_getitem_def record_of_def setitem_absent split: option.splits)

subsection \<open>One item of the tracking dictionary\<close>

text \<open>
  When the three slots of a group hold an identifier, the iteration raises nothing: it
  writes the lines the specification has for the group, and registers the identifier in
  its index when the index does not have it.
\<close>

lemma selected_cases:
  assumes "selected ids = Some (p, t)"
  obtains (oxford) rest where "ids = t # rest" "t \<noteq> ''-''" "p = Oxford"
        | (flair) rest where "ids = ''-'' # t # rest" "t \<noteq> ''-''" "p = Flair"
        | (talon) rest where "ids = ''-'' # ''-'' # t # rest" "t \<noteq> ''-''" "p = Talon"
proof (cases ids)
  case Nil
  with assms show ?thesis by (simp add: selected_def)
next
  case (Cons a as)
  note ids1 = this
  show ?thesis
  proof (cases "a = ''-''")
    case False
    with assms ids1 have "t = a" "p = Oxford" by (simp_all add: selected_def)
    with ids1 False show ?thesis using oxford by blast
  next
    case a: True
    show ?thesis
    proof (cases as)
      case Nil
      with assms ids1 a show ?thesis by (simp add: selected_def)
    next
      case (Cons b bs)
      note ids2 = this
      show ?thesis
      proof (cases "b = ''-''")
        case False
        with assms ids1 ids2 a have "t = b" "p = Flair" by (simp_all add: selected_def)
        with ids1 ids2 a False show ?thesis using flair by blast
      next
        case b: True
        show ?thesis
        proof (cases bs)
          case Nil
          with assms ids1 ids2 a b show ?thesis by (simp add: selected_def)
        next
          case (Cons c cs)
          show ?thesis
          proof (cases "c = ''-''")
            case False
            with assms ids1 ids2 Cons a b have "t = c" "p = Talon" by (simp_all add: selected_def)
            with ids1 ids2 Cons a b False show ?thesis using talon by blast
          next
            case True
            with assms ids1 ids2 Cons a b show ?thesis by (simp add: selected_def)
          qed
        qed
      qed
    qed
  qed
qed


lemma write_item_selected:
  assumes "selected (snd item) = Some (p, t)"
  shows "write_item item oxford flair talon =
     Inr (case (if map_of (index_of p oxford flair talon) t = None
                then registered p t (oxford, flair, talon) else (oxford, flair, talon)) of
            (oxford', flair', talon') \<Rightarrow> (emitted oxford flair talon item, oxford', flair', talon'))"
  using assms
proof (cases rule: selected_cases)
  case (oxford rest)
  with assms show ?thesis
    by (simp add: write_item_def getitem_def defaultdict_getitem_eq emitted_def index_of_def
        registered_def)
next
  case (flair rest)
  with assms show ?thesis
    by (simp add: write_item_def getitem_def defaultdict_getitem_eq emitted_def index_of_def
        registered_def)
next
  case (talon rest)
  with assms show ?thesis
    by (simp add: write_item_def getitem_def defaultdict_getitem_eq emitted_def index_of_def
        registered_def)
qed

text \<open>
  Whatever the group, an iteration that raises nothing leaves each index as the look-up of
  the group makes it.
\<close>

lemma write_item_looked_up:
  assumes "write_item item oxford flair talon = Inr (written, oxford', flair', talon')"
  shows "index_of p oxford' flair' talon' =
           register p (index_of p oxford flair talon) (looked_up (snd item))"
proof -
  obtain tcons_id ids where item: "item = (tcons_id, ids)" by (cases item)
  show ?thesis
  proof (cases ids)
    case Nil
    with assms item show ?thesis by (simp add: write_item_def getitem_def)
  next
    case ids1: (Cons a as)
    show ?thesis
    proof (cases "a = ''-''")
      case False
      with assms item ids1 show ?thesis
        by (cases p)
          (auto simp: write_item_def getitem_def defaultdict_getitem_eq looked_up_def
            selected_def register_def index_of_def split: if_splits)
    next
      case a: True
      show ?thesis
      proof (cases as)
        case Nil
        with assms item ids1 a show ?thesis by (simp add: write_item_def getitem_def)
      next
        case ids2: (Cons b bs)
        show ?thesis
        proof (cases "b = ''-''")
          case False
          with assms item ids1 ids2 a show ?thesis
            by (cases p)
              (auto simp: write_item_def getitem_def defaultdict_getitem_eq looked_up_def
                selected_def register_def index_of_def split: if_splits)
        next
          case b: True
          show ?thesis
          proof (cases bs)
            case Nil
            with assms item ids1 ids2 a b show ?thesis by (simp add: write_item_def getitem_def)
          next
            case (Cons c cs)
            with assms item ids1 ids2 a b show ?thesis
              by (cases p; cases "c = ''-''")
                (auto simp: write_item_def getitem_def defaultdict_getitem_eq looked_up_def
                  selected_def register_def index_of_def split: if_splits)
          qed
        qed
      qed
    qed
  qed
qed

subsection \<open>The loop\<close>

lemma registers_only_iff:
  "registers_only d d' \<longleftrightarrow> (\<exists>new. d' = d @ new \<and> list_all (\<lambda>entry. snd entry = []) new)"
proof
  assume "registers_only d d'"
  then have "d' = d @ drop (length d) d'" and "list_all (\<lambda>entry. snd entry = []) (drop (length d) d')"
    unfolding registers_only_def by (metis append_take_drop_id, simp)
  then show "\<exists>new. d' = d @ new \<and> list_all (\<lambda>entry. snd entry = []) new" by blast
next
  assume "\<exists>new. d' = d @ new \<and> list_all (\<lambda>entry. snd entry = []) new"
  then show "registers_only d d'" by (auto simp: registers_only_def)
qed

lemma registers_only_refl: "registers_only d d"
  by (simp add: registers_only_def)

lemma registers_only_trans:
  "registers_only d d' \<Longrightarrow> registers_only d' d'' \<Longrightarrow> registers_only d d''"
  unfolding registers_only_iff by auto

lemma defaultdict_getitem_registers: "registers_only d (snd (defaultdict_getitem d k))"
  by (simp add: defaultdict_getitem_eq registers_only_def)

lemma write_item_registers:
  assumes "write_item item oxford flair talon = Inr (written, oxford', flair', talon')"
  shows "registers_only oxford oxford' \<and> registers_only flair flair' \<and> registers_only talon talon'"
  using assms unfolding write_item_def Let_def
  by (auto simp: defaultdict_getitem_eq registers_only_def split: sum.splits if_splits)

lemma write_gtf_registers:
  assumes "write_gtf tracking_dict oxford flair talon = Inr (out, oxford', flair', talon')"
  shows "registers_only oxford oxford' \<and> registers_only flair flair' \<and> registers_only talon talon'"
  using assms
proof (induction tracking_dict arbitrary: oxford flair talon out)
  case Nil
  then show ?case by (simp add: registers_only_refl)
next
  case (Cons item rest)
  from Cons.prems obtain written oxford1 flair1 talon1 out1 where
    step: "write_item item oxford flair talon = Inr (written, oxford1, flair1, talon1)" and
    loop: "write_gtf rest oxford1 flair1 talon1 = Inr (out1, oxford', flair', talon')"
    by (auto split: sum.splits prod.splits)
  from write_item_registers[OF step] Cons.IH[OF loop] show ?case
    using registers_only_trans by blast
qed

lemma write_gtf_present:
  assumes "all_selected_present tracking_dict oxford flair talon"
  shows "write_gtf tracking_dict oxford flair talon =
           Inr (concat (map (emitted oxford flair talon) tracking_dict), oxford, flair, talon)"
  using assms
proof (induction tracking_dict)
  case Nil
  then show ?case by simp
next
  case (Cons item rest)
  from Cons.prems obtain p t where
    sel: "selected (snd item) = Some (p, t)" and
    present: "map_of (index_of p oxford flair talon) t \<noteq> None" and
    rest: "all_selected_present rest oxford flair talon"
    by (auto simp: all_selected_present_def split: option.splits)
  from write_item_selected[OF sel, of oxford flair talon] present
  have "write_item item oxford flair talon = Inr (emitted oxford flair talon item, oxford, flair, talon)"
    by simp
  with Cons.IH[OF rest] show ?case by simp
qed

lemma write_item_no_KeyError: "write_item item oxford flair talon \<noteq> Inl KeyError"
  unfolding write_item_def Let_def getitem_def
  by (auto split: prod.splits)

lemma write_gtf_no_KeyError: "write_gtf tracking_dict oxford flair talon \<noteq> Inl KeyError"
proof (induction tracking_dict arbitrary: oxford flair talon)
  case Nil
  then show ?case by simp
next
  case (Cons item rest)
  then show ?case
    using write_item_no_KeyError[of item oxford flair talon]
    by (auto split: sum.splits prod.splits)
qed

lemma write_gtf_looked_up:
  assumes "write_gtf tracking_dict oxford flair talon = Inr (out, oxford', flair', talon')"
  shows "index_of p oxford' flair' talon' =
           foldl (register p) (index_of p oxford flair talon)
             (map (\<lambda>item. looked_up (snd item)) tracking_dict)"
  using assms
proof (induction tracking_dict arbitrary: oxford flair talon out)
  case Nil
  then show ?case by simp
next
  case (Cons item rest)
  from Cons.prems obtain written oxford1 flair1 talon1 out1 where
    step: "write_item item oxford flair talon = Inr (written, oxford1, flair1, talon1)" and
    loop: "write_gtf rest oxford1 flair1 talon1 = Inr (out1, oxford', flair', talon')"
    by (auto split: sum.splits prod.splits)
  from write_item_looked_up[OF step, of p] Cons.IH[OF loop] show ?case
    by simp
qed

lemma keys_register:
  "fst ` set (foldl (register p) d slots) = fst ` set d \<union> {t. (p, t) \<in> set slots}"
proof (induction slots arbitrary: d)
  case Nil
  then show ?case by simp
next
  case (Cons slot slots)
  have "fst ` set (register p d slot) = fst ` set d \<union> {t. (p, t) = slot}"
  proof (cases "fst slot = p \<and> map_of d (snd slot) = None")
    case True
    then show ?thesis by (cases slot) (auto simp: register_def)
  next
    case False
    then have "fst slot \<noteq> p \<or> snd slot \<in> fst ` set d"
      by (auto simp: map_of_eq_None_iff)
    with False show ?thesis by (cases slot) (auto simp: register_def)
  qed
  with Cons.IH[of "register p d slot"] show ?case by auto
qed

subsection \<open>The sample index and the sample tracking file\<close>

lemma sample_index_built: "gtf sample_index_file = Inr sample_index"
  by (simp add: gtf_def sample_index_file_def sample_index_def transcript_T1_def exon_T1_def
      startswith_hash_def split_def getitem_def is_space_def slice_1_m2_def
      defaultdict_getitem_def strip_newline_def)

lemma sample_tracking_categorized:
  "categorize_tracking [tracking_absent] =
     Inr ([], [], [(''TCONS_9'', [''T9'', ''-'', ''-''])])"
  by (simp add: categorize_tracking_def tracking_absent_def split_def split_sep_def getitem_def
      is_space_def)

subsection \<open>The claims about write\<close>



text \<open>
  C1, as the code has it. When the identifier a group selects is not in the index of its
  pipeline, \<^verbatim>\<open>write\<close> does not end with a lookup error: the iteration writes no line,
  registers the identifier in that index with an empty record, and the loop goes on with
  the next group.
\<close>

theorem write_absent_identifier_registered:
  assumes "selected (snd item) = Some (p, t)"
      and "map_of (index_of p oxford flair talon) t = None"
  shows "write_gtf (item # tracking_dict) oxford flair talon \<noteq> Inl KeyError
         \<and> write_gtf (item # tracking_dict) oxford flair talon =
             (case registered p t (oxford, flair, talon) of
                (oxford', flair', talon') \<Rightarrow> write_gtf tracking_dict oxford' flair' talon')"
proof
  show "write_gtf (item # tracking_dict) oxford flair talon \<noteq> Inl KeyError"
    by (rule write_gtf_no_KeyError)
  obtain oxford' flair' talon' where reg: "registered p t (oxford, flair, talon) = (oxford', flair', talon')"
    by (cases "registered p t (oxford, flair, talon)") auto
  have "emitted oxford flair talon item = []"
    using assms by (simp add: emitted_def record_of_def)
  with write_item_selected[OF assms(1), of oxford flair talon] assms(2) reg
  have "write_item item oxford flair talon = Inr ([], oxford', flair', talon')"
    by simp
  then show "write_gtf (item # tracking_dict) oxford flair talon =
             (case registered p t (oxford, flair, talon) of
                (oxford', flair', talon') \<Rightarrow> write_gtf tracking_dict oxford' flair' talon')"
    using reg by (simp split: sum.splits prod.splits)
qed

text \<open>A group whose only identifier, of the talon pipeline, is not in the talon index.\<close>

theorem write_absent_identifier_registered_witness:
  "selected [''-'', ''-'', ''N3''] = Some (Talon, ''N3'')
   \<and> map_of sample_index ''N3'' = None
   \<and> write_gtf [(''TCONS_3'', [''-'', ''-'', ''N3''])] [] [] sample_index =
       Inr ([], [], [], sample_index @ [(''N3'', [])])"
proof -
  have sel: "selected (snd (''TCONS_3'', [''-'', ''-'', ''N3''])) = Some (Talon, ''N3'')"
    by (simp add: selected_def)
  have absent: "map_of (index_of Talon [] [] sample_index) ''N3'' = None"
    by (simp add: index_of_def sample_index_def)
  from write_absent_identifier_registered[OF sel absent, of "[]"]
  have "write_gtf [(''TCONS_3'', [''-'', ''-'', ''N3''])] [] [] sample_index =
       Inr ([], [], [], sample_index @ [(''N3'', [])])"
    by (simp add: registered_def)
  with sel absent show ?thesis by (simp add: index_of_def)
qed

text \<open>
  C1 as stated fails: the tracking line of group \<^verbatim>\<open>TCONS_9\<close> names the transcript
  \<^verbatim>\<open>T9\<close> of the oxford pipeline, the index built from the oxford GTF file does not
  have it, and \<^verbatim>\<open>write\<close> on the bucket of that group returns, having written
  nothing.
\<close>

theorem write_absent_identifier_raises_nothing:
  "categorize_tracking [tracking_absent] =
     Inr ([], [], [(''TCONS_9'', [''T9'', ''-'', ''-''])])
   \<and> gtf sample_index_file = Inr sample_index
   \<and> map_of sample_index ''T9'' = None
   \<and> write_gtf [(''TCONS_9'', [''T9'', ''-'', ''-''])] sample_index [] [] =
       Inr ([], sample_index @ [(''T9'', [])], [], [])"
  by (simp add: sample_tracking_categorized sample_index_built)
     (simp add: sample_index_def write_item_def getitem_def defaultdict_getitem_def)

text \<open>
  C3, as the code has it. A call of \<^verbatim>\<open>write\<close> that returns leaves each index as it
  was, followed by the identifiers looked up in it that it did not have, in the order of
  the groups, each once and with an empty record: no entry the index had is changed or
  removed, and the keys after the call are the keys before it and the identifiers looked
  up in that index. When every group selects an identifier that its index has, the three
  indexes are after the call what they were before.
\<close>

theorem write_registers_looked_up:
  assumes "write_gtf tracking_dict oxford flair talon = Inr (out, oxford', flair', talon')"
  shows "(\<forall>p. index_of p oxford' flair' talon' =
               foldl (register p) (index_of p oxford flair talon)
                 (map (\<lambda>item. looked_up (snd item)) tracking_dict)
            \<and> registers_only (index_of p oxford flair talon) (index_of p oxford' flair' talon')
            \<and> fst ` set (index_of p oxford' flair' talon') =
                fst ` set (index_of p oxford flair talon)
                \<union> {t. \<exists>item \<in> set tracking_dict. looked_up (snd item) = (p, t)})
         \<and> (all_selected_present tracking_dict oxford flair talon \<longrightarrow>
              oxford' = oxford \<and> flair' = flair \<and> talon' = talon)"
proof (intro conjI allI impI)
  fix p
  show run: "index_of p oxford' flair' talon' =
               foldl (register p) (index_of p oxford flair talon)
                 (map (\<lambda>item. looked_up (snd item)) tracking_dict)"
    using assms by (rule write_gtf_looked_up)
  show "registers_only (index_of p oxford flair talon) (index_of p oxford' flair' talon')"
    using write_gtf_registers[OF assms] by (cases p) (simp_all add: index_of_def)
  show "fst ` set (index_of p oxford' flair' talon') =
                fst ` set (index_of p oxford flair talon)
                \<union> {t. \<exists>item \<in> set tracking_dict. looked_up (snd item) = (p, t)}"
    unfolding run keys_register by force
next
  assume "all_selected_present tracking_dict oxford flair talon"
  from write_gtf_present[OF this] assms
  show "oxford' = oxford" "flair' = flair" "talon' = talon"
    by simp_all
qed

text \<open>
  On the bucket of three groups the sample index gains the key \<^verbatim>\<open>T2\<close> and the talon
  index the sentinel; on the bucket of the first group alone the indexes stay as they are.
\<close>

theorem write_registers_looked_up_witness:
  "write_gtf bucket_mixed sample_index [] [] =
     Inr ([''1 ox transcript 1 9 . + . gene_id \"G1\"; transcript_id \"T1\"; match_id \"TCONS_1\";\<newline>'',
           ''1 ox exon 1 9 . + . gene_id \"G1\"; transcript_id \"T1\"; match_id \"TCONS_1\";\<newline>''],
          sample_index @ [(''T2'', [])], [], [(''-'', [])])
   \<and> map (\<lambda>item. looked_up (snd item)) bucket_mixed =
       [(Oxford, ''T1''), (Oxford, ''T2''), (Talon, ''-'')]
   \<and> selected [''-'', ''-'', ''-''] = None
   \<and> registers_only sample_index (sample_index @ [(''T2'', [])])
   \<and> fst ` set (sample_index @ [(''T2'', [])]) = {''T1'', ''T2''}
   \<and> all_selected_present [(''TCONS_1'', [''T1'', ''F1'', ''N1''])] sample_index [] []
   \<and> write_gtf [(''TCONS_1'', [''T1'', ''F1'', ''N1''])] sample_index [] [] =
       Inr ([''1 ox transcript 1 9 . + . gene_id \"G1\"; transcript_id \"T1\"; match_id \"TCONS_1\";\<newline>'',
             ''1 ox exon 1 9 . + . gene_id \"G1\"; transcript_id \"T1\"; match_id \"TCONS_1\";\<newline>''],
            sample_index, [], [])"
proof -
  have run: "write_gtf bucket_mixed sample_index [] [] =
     Inr ([''1 ox transcript 1 9 . + . gene_id \"G1\"; transcript_id \"T1\"; match_id \"TCONS_1\";\<newline>'',
           ''1 ox exon 1 9 . + . gene_id \"G1\"; transcript_id \"T1\"; match_id \"TCONS_1\";\<newline>''],
          sample_index @ [(''T2'', [])], [], [(''-'', [])])"
    by (simp add: bucket_mixed_def sample_index_def write_item_def getitem_def
        defaultdict_getitem_def match_line_def)
  have slots: "map (\<lambda>item. looked_up (snd item)) bucket_mixed =
       [(Oxford, ''T1''), (Oxford, ''T2''), (Talon, ''-'')]"
    by (simp add: bucket_mixed_def looked_up_def selected_def)
  have none: "selected [''-'', ''-'', ''-''] = None"
    by (simp add: selected_def)
  from write_registers_looked_up[OF run]
  have "registers_only (index_of Oxford sample_index [] [])
          (index_of Oxford (sample_index @ [(''T2'', [])]) [] [(''-'', [])])"
    and "fst ` set (index_of Oxford (sample_index @ [(''T2'', [])]) [] [(''-'', [])]) =
           fst ` set (index_of Oxford sample_index [] [])
           \<union> {t. \<exists>item \<in> set bucket_mixed. looked_up (snd item) = (Oxford, t)}"
    by blast+
  moreover have "{t. \<exists>item \<in> set bucket_mixed. looked_up (snd item) = (Oxford, t)} = {''T1'', ''T2''}"
    by (auto simp: bucket_mixed_def looked_up_def selected_def)
  ultimately have changed: "registers_only sample_index (sample_index @ [(''T2'', [])])"
    "fst ` set (sample_index @ [(''T2'', [])]) = {''T1'', ''T2''}"
    by (auto simp: index_of_def sample_index_def)
  have present: "all_selected_present [(''TCONS_1'', [''T1'', ''F1'', ''N1''])] sample_index [] []"
    by (simp add: all_selected_present_def selected_def index_of_def sample_index_def)
  obtain out oxford' flair' talon' where
    full: "write_gtf [(''TCONS_1'', [''T1'', ''F1'', ''N1''])] sample_index [] [] =
             Inr (out, oxford', flair', talon')" and
    out: "out = [''1 ox transcript 1 9 . + . gene_id \"G1\"; transcript_id \"T1\"; match_id \"TCONS_1\";\<newline>'',
             ''1 ox exon 1 9 . + . gene_id \"G1\"; transcript_id \"T1\"; match_id \"TCONS_1\";\<newline>'']"
    by (simp add: sample_index_def write_item_def getitem_def defaultdict_getitem_def
        match_line_def)
  from write_registers_looked_up[OF full] present
  have "oxford' = sample_index \<and> flair' = [] \<and> talon' = []"
    by blast
  with full out have unchanged:
    "write_gtf [(''TCONS_1'', [''T1'', ''F1'', ''N1''])] sample_index [] [] =
       Inr ([''1 ox transcript 1 9 . + . gene_id \"G1\"; transcript_id \"T1\"; match_id \"TCONS_1\";\<newline>'',
             ''1 ox exon 1 9 . + . gene_id \"G1\"; transcript_id \"T1\"; match_id \"TCONS_1\";\<newline>''],
            sample_index, [], [])"
    by simp
  from run slots none changed present unchanged show ?thesis by simp
qed

text \<open>
  C3 as stated fails: the group \<^verbatim>\<open>TCONS_2\<close> selects the transcript \<^verbatim>\<open>T2\<close> of the
  oxford pipeline, which the sample index does not have; after the call the index has the
  key \<^verbatim>\<open>T2\<close>, with an empty record.
\<close>

theorem write_changes_index:
  "map_of sample_index ''T2'' = None
   \<and> write_gtf [(''TCONS_2'', [''T2'', ''F2'', ''-''])] sample_index [] [] =
       Inr ([], sample_index @ [(''T2'', [])], [], [])
   \<and> map_of (sample_index @ [(''T2'', [])]) ''T2'' = Some []"
  by (simp add: sample_index_def write_item_def getitem_def defaultdict_getitem_def)

section \<open>Properties of categorize_tracking\<close>

text \<open>
  The inner loop counts the sentinels of the line, and the body of the outer loop stores
  the group under its identifier in the dictionary its sentinel count names. On lines with
  distinct group identifiers every line adds a new key to exactly one dictionary.
\<close>

lemma transcripts_loop_count:
  "transcripts_loop transcripts count transcript_ids = Inr (count', transcript_ids') \<Longrightarrow>
   count' = count + length (filter (\<lambda>field. field = ''-'') transcripts)"
proof (induction transcripts arbitrary: count transcript_ids)
  case Nil
  then show ?case by simp
next
  case (Cons transcript transcripts)
  show ?case
  proof (cases "transcript = ''-''")
    case True
    with Cons.prems have
      "transcripts_loop transcripts (count + 1) (transcript_ids @ [transcript]) =
         Inr (count', transcript_ids')"
      by simp
    from Cons.IH[OF this] True show ?thesis by simp
  next
    case False
    with Cons.prems obtain transcript_id where
      "transcripts_loop transcripts count (transcript_ids @ [transcript_id]) =
         Inr (count', transcript_ids')"
      by (auto split: sum.splits)
    from Cons.IH[OF this] False show ?thesis by simp
  qed
qed

lemma categorize_line_result:
  assumes "categorize_line (three_match, two_match, no_match) l = Inr dicts"
  shows "\<exists>transcript_ids. dicts =
     (if sentinels l = 1 then (three_match, setitem two_match (group_id l) transcript_ids, no_match)
      else if sentinels l = 2 then (three_match, two_match, setitem no_match (group_id l) transcript_ids)
      else (setitem three_match (group_id l) transcript_ids, two_match, no_match))"
proof -
  from assms obtain count transcript_ids tcons_id where
    loop: "transcripts_loop (drop 4 (split l)) 0 [] = Inr (count, transcript_ids)" and
    key: "getitem (split l) 0 = Inr tcons_id" and
    dicts: "dicts =
      (if count = 1 then (three_match, setitem two_match tcons_id transcript_ids, no_match)
       else if count = 2 then (three_match, two_match, setitem no_match tcons_id transcript_ids)
       else (setitem three_match tcons_id transcript_ids, two_match, no_match))"
    by (auto simp: Let_def split: sum.splits prod.splits if_splits)
  from transcripts_loop_count[OF loop] have "count = sentinels l"
    by (simp add: sentinels_def)
  moreover from key have "tcons_id = group_id l"
    by (cases "split l") (auto simp: getitem_def group_id_def)
  ultimately show ?thesis using dicts by blast
qed

lemma categorize_loop_partition:
  assumes "categorize_loop (three_match, two_match, no_match) tracking =
             Inr (three_match', two_match', no_match')"
      and "distinct (map group_id tracking)"
      and "\<forall>l \<in> set tracking. map_of three_match (group_id l) = None
             \<and> map_of two_match (group_id l) = None \<and> map_of no_match (group_id l) = None"
  shows "length three_match' + length two_match' + length no_match' =
           length three_match + length two_match + length no_match + length tracking
       \<and> fst ` set three_match' = fst ` set three_match
            \<union> group_id ` {l \<in> set tracking. sentinels l \<noteq> 1 \<and> sentinels l \<noteq> 2}
       \<and> fst ` set two_match' = fst ` set two_match
            \<union> group_id ` {l \<in> set tracking. sentinels l = 1}
       \<and> fst ` set no_match' = fst ` set no_match
            \<union> group_id ` {l \<in> set tracking. sentinels l = 2}"
  using assms
proof (induction tracking arbitrary: three_match two_match no_match)
  case Nil
  then show ?case by simp
next
  case (Cons l tracking)
  from Cons.prems(1) obtain dicts where
    step: "categorize_line (three_match, two_match, no_match) l = Inr dicts" and
    loop: "categorize_loop dicts tracking = Inr (three_match', two_match', no_match')"
    by (auto split: sum.splits)
  from categorize_line_result[OF step] obtain transcript_ids where dicts: "dicts =
     (if sentinels l = 1 then (three_match, setitem two_match (group_id l) transcript_ids, no_match)
      else if sentinels l = 2 then (three_match, two_match, setitem no_match (group_id l) transcript_ids)
      else (setitem three_match (group_id l) transcript_ids, two_match, no_match))"
    by blast
  from Cons.prems(3) have new:
    "map_of three_match (group_id l) = None" "map_of two_match (group_id l) = None"
    "map_of no_match (group_id l) = None"
    by simp_all
  from Cons.prems(2) have dist: "distinct (map group_id tracking)"
    and other: "\<forall>l' \<in> set tracking. group_id l' \<noteq> group_id l"
    by (auto simp: image_iff)
  from Cons.prems(3) have old: "\<forall>l' \<in> set tracking. map_of three_match (group_id l') = None
      \<and> map_of two_match (group_id l') = None \<and> map_of no_match (group_id l') = None"
    by simp
  consider (two) "sentinels l = 1" | (one) "sentinels l = 2"
    | (three) "sentinels l \<noteq> 1" "sentinels l \<noteq> 2"
    by blast
  then show ?case
  proof cases
    case two
    with dicts loop have loop':
      "categorize_loop (three_match, setitem two_match (group_id l) transcript_ids, no_match) tracking =
         Inr (three_match', two_match', no_match')"
      by simp
    have "\<forall>l' \<in> set tracking. map_of three_match (group_id l') = None
         \<and> map_of (setitem two_match (group_id l) transcript_ids) (group_id l') = None
         \<and> map_of no_match (group_id l') = None"
      using old other by (simp add: map_of_setitem)
    from Cons.IH[OF loop' dist this] two new show ?thesis
      by (auto simp: keys_setitem length_setitem)
  next
    case one
    with dicts loop have loop':
      "categorize_loop (three_match, two_match, setitem no_match (group_id l) transcript_ids) tracking =
         Inr (three_match', two_match', no_match')"
      by simp
    have "\<forall>l' \<in> set tracking. map_of three_match (group_id l') = None
         \<and> map_of two_match (group_id l') = None
         \<and> map_of (setitem no_match (group_id l) transcript_ids) (group_id l') = None"
      using old other by (simp add: map_of_setitem)
    from Cons.IH[OF loop' dist this] one new show ?thesis
      by (auto simp: keys_setitem length_setitem)
  next
    case three
    with dicts loop have loop':
      "categorize_loop (setitem three_match (group_id l) transcript_ids, two_match, no_match) tracking =
         Inr (three_match', two_match', no_match')"
      by simp
    have "\<forall>l' \<in> set tracking. map_of (setitem three_match (group_id l) transcript_ids) (group_id l') = None
         \<and> map_of two_match (group_id l') = None
         \<and> map_of no_match (group_id l') = None"
      using old other by (simp add: map_of_setitem)
    from Cons.IH[OF loop' dist this] three new show ?thesis
      by (auto simp: keys_setitem length_setitem)
  qed
qed

lemmas tracking_defs =
  categorize_tracking_def tracking_full_def tracking_two_def tracking_one_def tracking_again_def
  split_def split_sep_def getitem_def is_space_def

text \<open>
  C8, as the code has it. For a tracking file whose lines have pairwise distinct group
  identifiers, and on which \<^verbatim>\<open>categorize_tracking\<close> ends without an exception, the sizes
  of the three dictionaries sum to the number of lines, and the group of each line is a key
  of exactly one of them: of \<^verbatim>\<open>two_match\<close> when the line has one sentinel, of
  \<^verbatim>\<open>no_match\<close> when it has two, and of \<^verbatim>\<open>three_match\<close> otherwise, so when it has
  none.
\<close>

theorem categorize_tracking_partition:
  assumes run: "categorize_tracking tracking = Inr (three_match, two_match, no_match)"
      and dist: "distinct (map group_id tracking)"
  shows "length three_match + length two_match + length no_match = length tracking
       \<and> (\<forall>l \<in> set tracking.
             (group_id l \<in> fst ` set three_match \<longleftrightarrow> sentinels l \<noteq> 1 \<and> sentinels l \<noteq> 2)
           \<and> (group_id l \<in> fst ` set two_match \<longleftrightarrow> sentinels l = 1)
           \<and> (group_id l \<in> fst ` set no_match \<longleftrightarrow> sentinels l = 2))"
proof -
  from run have "categorize_loop ([], [], []) tracking = Inr (three_match, two_match, no_match)"
    by (simp add: categorize_tracking_def)
  from categorize_loop_partition[OF this dist] have
    len: "length three_match + length two_match + length no_match = length tracking" and
    three: "fst ` set three_match = group_id ` {l \<in> set tracking. sentinels l \<noteq> 1 \<and> sentinels l \<noteq> 2}" and
    two: "fst ` set two_match = group_id ` {l \<in> set tracking. sentinels l = 1}" and
    one: "fst ` set no_match = group_id ` {l \<in> set tracking. sentinels l = 2}"
    by simp_all
  from dist have inj: "inj_on group_id (set tracking)"
    by (simp add: distinct_map)
  have mem: "group_id l \<in> group_id ` {l' \<in> set tracking. P l'} \<longleftrightarrow> P l"
    if "l \<in> set tracking" for l and P :: "string \<Rightarrow> bool"
    using inj_on_image_mem_iff[OF inj that, of "{l' \<in> set tracking. P l'}"] that by auto
  show ?thesis
    using len three two one mem by simp
qed

text \<open>Three lines with distinct groups, one for each dictionary.\<close>

theorem categorize_tracking_partition_witness:
  "distinct (map group_id [tracking_full, tracking_two, tracking_one])
   \<and> categorize_tracking [tracking_full, tracking_two, tracking_one] =
       Inr ([(''TCONS_1'', [''T1'', ''F1'', ''N1''])],
            [(''TCONS_2'', [''T2'', ''F2'', ''-''])],
            [(''TCONS_3'', [''-'', ''-'', ''N3''])])
   \<and> sentinels tracking_two = 1
   \<and> group_id tracking_two \<in> fst ` set [(''TCONS_2'', [''T2'', ''F2'', ''-''])]
   \<and> length [(''TCONS_1'', [''T1'', ''F1'', ''N1''])] + length [(''TCONS_2'', [''T2'', ''F2'', ''-''])]
       + length [(''TCONS_3'', [''-'', ''-'', ''N3''])]
       = length [tracking_full, tracking_two, tracking_one]"
proof -
  have dist: "distinct (map group_id [tracking_full, tracking_two, tracking_one])"
    by (simp add: group_id_def tracking_defs)
  have run: "categorize_tracking [tracking_full, tracking_two, tracking_one] =
       Inr ([(''TCONS_1'', [''T1'', ''F1'', ''N1''])],
            [(''TCONS_2'', [''T2'', ''F2'', ''-''])],
            [(''TCONS_3'', [''-'', ''-'', ''N3''])])"
    by (simp add: tracking_defs)
  have count: "sentinels tracking_two = 1"
    by (simp add: sentinels_def tracking_defs)
  from categorize_tracking_partition[OF run dist] count
  have "group_id tracking_two \<in> fst ` set [(''TCONS_2'', [''T2'', ''F2'', ''-''])]"
    and "length [(''TCONS_1'', [''T1'', ''F1'', ''N1''])] + length [(''TCONS_2'', [''T2'', ''F2'', ''-''])]
       + length [(''TCONS_3'', [''-'', ''-'', ''N3''])]
       = length [tracking_full, tracking_two, tracking_one]"
    by simp_all
  with dist run count show ?thesis by blast
qed

text \<open>
  C8 as stated fails on a tracking file in which a group identifier comes twice: the
  second line replaces the entry of the first, and the three dictionaries hold one group
  for two lines.
\<close>

theorem categorize_tracking_repeated_group:
  "categorize_tracking [tracking_full, tracking_again] =
     Inr ([(''TCONS_1'', [''T4'', ''F4'', ''N4''])], [], [])
   \<and> length [(''TCONS_1'', [''T4'', ''F4'', ''N4''])] + length ([] :: tracking_dict)
       + length ([] :: tracking_dict) = 1
   \<and> length [tracking_full, tracking_again] = 2"
  by (simp add: tracking_defs)

section \<open>Properties of the abundance readers\<close>

subsection \<open>Doubles of natural numbers\<close>

text \<open>
  Every natural number up to \<open>2 ^ 53\<close> is a double: rounding leaves it as it is, and
  so does the addition of two of them whose sum is within the bound.
\<close>

lemma bit_length_bounds:
  "0 < n \<Longrightarrow> 2 ^ (bit_length n - 1) \<le> n \<and> n < 2 ^ bit_length n"
proof (induction n rule: bit_length.induct)
  case (1 n)
  show ?case
  proof (cases "n div 2 = 0")
    case True
    with "1.prems" have "n = 1" by (auto simp: div_eq_0_iff)
    then show ?thesis by (simp add: bit_length.simps)
  next
    case False
    then have pos: "0 < n div 2" by simp
    from "1.IH" "1.prems" pos have
      lo: "2 ^ (bit_length (n div 2) - 1) \<le> n div 2" and hi: "n div 2 < 2 ^ bit_length (n div 2)"
      by simp_all
    have len: "bit_length n = Suc (bit_length (n div 2))"
      using "1.prems" by (simp add: bit_length.simps[of n])
    have "0 < bit_length (n div 2)"
      using pos by (simp add: bit_length.simps[of "n div 2"])
    then have "(2::nat) ^ (bit_length n - 1) = 2 * 2 ^ (bit_length (n div 2) - 1)"
      using len by (cases "bit_length (n div 2)") simp_all
    moreover have "2 * (n div 2) \<le> n" by simp
    ultimately have "2 ^ (bit_length n - 1) \<le> n" using lo by linarith
    moreover have "n < 2 * Suc (n div 2)" by presburger
    with hi have "n < 2 ^ bit_length n" using len by simp
    ultimately show ?thesis by simp
  qed
qed

lemma bit_length_le:
  assumes "n < 2 ^ k"
  shows "bit_length n \<le> k"
proof (cases "n = 0")
  case True
  then show ?thesis by (simp add: bit_length.simps)
next
  case False
  with bit_length_bounds[of n] have "(2::nat) ^ (bit_length n - 1) \<le> n" by simp
  with assms have "(2::nat) ^ (bit_length n - 1) < 2 ^ k" by linarith
  then have "bit_length n - 1 < k" by simp
  then show ?thesis by linarith
qed

lemma bit_length_pos: "0 < n \<Longrightarrow> 0 < bit_length n"
  by (simp add: bit_length.simps[of n])

lemma round_half_even_multiple: "0 < b \<Longrightarrow> round_half_even (k * b) b = k"
  by (simp add: round_half_even_def)

lemma floor_log2_multiple:
  "0 < n \<Longrightarrow> 0 < b \<Longrightarrow> floor_log2 (n * b) b = int (bit_length n) - 1"
  by (simp add: floor_log2_def)

lemma round_ratio_integral:
  assumes n: "n \<le> 2 ^ 53" and b: "0 < b"
  shows "round_ratio False (n * b) b = Finite (rat_of_nat n)"
proof (cases "n = 0")
  case True
  then show ?thesis by (simp add: round_ratio_def)
next
  case False
  then have pos: "0 < n" by simp
  define len where "len = bit_length n"
  have len_pos: "0 < len" using pos by (simp add: len_def bit_length_pos)
  have lo: "2 ^ (len - 1) \<le> n" and hi: "n < 2 ^ len"
    using bit_length_bounds[OF pos] by (simp_all add: len_def)
  have "(2::nat) ^ (len - 1) \<le> 2 ^ 53" using lo n by (rule le_trans)
  then have "len - 1 \<le> 53" by (rule power_le_imp_le_exp[rotated]) simp
  then have len_le: "len \<le> 54" by simp
  have log: "floor_log2 (n * b) b = int len - 1"
    using pos b by (simp add: floor_log2_multiple len_def)
  have e: "max (- 1074) (floor_log2 (n * b) b - 52) = int len - 53"
    using log len_pos by simp
  show ?thesis
  proof (cases "len = 54")
    case True
    with lo n have n53: "n = 2 ^ 53" by simp
    have m: "round_half_even (n * b) (b * 2 ^ 1) = 2 ^ 52"
      using round_half_even_multiple[of "b * 2" "2 ^ 52"] b n53 by (simp add: mult.commute)
    have "bit_length (2 ^ 52) \<le> 53"
      by (rule bit_length_le) simp
    then show ?thesis
      using e True m n53 False b by (simp add: round_ratio_def Let_def)
  next
    case False
    with len_le have small: "len \<le> 53" by simp
    define j where "j = 53 - len"
    have neg: "nat (- (int len - 53)) = j" using small by (simp add: j_def)
    have m: "round_half_even (n * b * 2 ^ j) b = n * 2 ^ j"
      using round_half_even_multiple[OF b, of "n * 2 ^ j"] by (simp add: ac_simps)
    have "n * 2 ^ j < 2 ^ len * 2 ^ j" using hi by simp
    also have "\<dots> = 2 ^ 53" using small by (simp add: j_def flip: power_add)
    finally have "n * 2 ^ j < 2 ^ 53" .
    then have bits: "bit_length (n * 2 ^ j) \<le> 53" by (rule bit_length_le)
    have nz: "n * 2 ^ j \<noteq> 0" using pos by simp
    show ?thesis
    proof (cases "len = 53")
      case True
      then have "j = 0" by (simp add: j_def)
      with e True m bits nz pos b show ?thesis
        by (simp add: round_ratio_def Let_def)
    next
      case False
      with small have lt: "int len - 53 < 0" by simp
      with e m bits nz pos neg b show ?thesis
        by (simp add: round_ratio_def Let_def)
    qed
  qed
qed

lemma round_rat_nat: "n \<le> 2 ^ 53 \<Longrightarrow> round_rat (rat_of_nat n) = Finite (rat_of_nat n)"
proof -
  assume n: "n \<le> 2 ^ 53"
  have "quotient_of (rat_of_nat n) = (int n, 1)"
    using quotient_of_int[of "int n"] by simp
  then show ?thesis
    using round_ratio_integral[OF n, of 1] by (simp add: round_rat_def)
qed

lemma double_add_nat:
  "a + b \<le> 2 ^ 53 \<Longrightarrow>
   double_add (Finite (rat_of_nat a)) (Finite (rat_of_nat b)) = Finite (rat_of_nat (a + b))"
  using round_rat_nat[of "a + b"] by simp

lemma foldl_double_add_nat:
  "a + sum_list ns \<le> 2 ^ 53 \<Longrightarrow>
   foldl double_add (Finite (rat_of_nat a)) (map (\<lambda>n. Finite (rat_of_nat n)) ns) =
     Finite (rat_of_nat (a + sum_list ns))"
proof (induction ns arbitrary: a)
  case Nil
  then show ?case by simp
next
  case (Cons n ns)
  from Cons.prems have step: "a + n \<le> 2 ^ 53" and rest: "(a + n) + sum_list ns \<le> 2 ^ 53"
    by simp_all
  have "foldl double_add (Finite (rat_of_nat a)) (map (\<lambda>n. Finite (rat_of_nat n)) (n # ns)) =
        foldl double_add (double_add (Finite (rat_of_nat a)) (Finite (rat_of_nat n)))
          (map (\<lambda>n. Finite (rat_of_nat n)) ns)"
    by simp
  also have "\<dots> = foldl double_add (Finite (rat_of_nat (a + n))) (map (\<lambda>n. Finite (rat_of_nat n)) ns)"
    by (simp only: double_add_nat[OF step])
  also have "\<dots> = Finite (rat_of_nat ((a + n) + sum_list ns))"
    by (rule Cons.IH[OF rest])
  finally show ?case by (simp add: add.assoc)
qed

lemma sum_floats_nat:
  assumes "sum_list ns \<le> 2 ^ 53"
  shows "sum_floats (map (\<lambda>n. Finite (rat_of_nat n)) ns) =
           (if ns = [] then PyInt 0 else PyFloat (Finite (rat_of_nat (sum_list ns))))"
proof (cases ns)
  case Nil
  then show ?thesis by simp
next
  case (Cons n rest)
  with assms have first: "0 + n \<le> 2 ^ 53" and all: "n + sum_list rest \<le> 2 ^ 53" by simp_all
  have "double_add (Finite 0) (Finite (rat_of_nat n)) = Finite (rat_of_nat n)"
    using double_add_nat[OF first] by (simp del: double_add.simps)
  then have "foldl double_add (double_add (Finite 0) (Finite (rat_of_nat n)))
               (map (\<lambda>n. Finite (rat_of_nat n)) rest) = Finite (rat_of_nat (n + sum_list rest))"
    using foldl_double_add_nat[OF all] by (simp only:)
  with Cons show ?thesis by (simp del: double_add.simps)
qed

text \<open>Beyond the bound, \<open>2 ^ 53 + 1\<close> is rounded to \<open>2 ^ 53\<close>.\<close>

lemma bit_length_eval:
  "bit_length 0 = 0" "bit_length 1 = 1" "bit_length (Suc 0) = 1"
  "bit_length (numeral k) = Suc (bit_length (numeral k div 2))"
  by (simp_all add: bit_length.simps[of 0] bit_length.simps[of 1]
      bit_length.simps[of "numeral k"] bit_length.simps[of "Suc 0"])

lemma round_rat_large:
  "round_rat 9007199254740992 = Finite 9007199254740992"
  "round_rat 9007199254740993 = Finite 9007199254740992"
  by (simp_all add: round_rat_def round_ratio_def floor_log2_def round_half_even_def
      bit_length_eval Let_def)

subsection \<open>Fields that are integral decimal numbers\<close>

text \<open>
  \<^verbatim>\<open>float\<close> reads a field made of digits, a point and zeros as the double of the number
  its digits spell, when that number is at most \<open>2 ^ 53\<close>.
\<close>

lemma remove_underscores_none:
  "CHR ''_'' \<notin> set s \<Longrightarrow> prev \<noteq> CHR ''_'' \<Longrightarrow> remove_underscores prev s = Some s"
  by (induction s arbitrary: prev) auto

lemma strip_number_id:
  assumes "s \<noteq> []" and "\<not> is_number_space (hd s)" and "\<not> is_number_space (last s)"
  shows "strip_number s = s"
proof -
  from assms have "dropWhile is_number_space s = s"
    by (cases s) simp_all
  moreover from assms have "dropWhile is_number_space (rev s) = rev s"
    by (cases "rev s") (simp_all add: last_rev[symmetric] hd_rev del: last_rev)
  ultimately show ?thesis by (simp add: strip_number_def)
qed

lemma digit_not_space: "is_digit c \<Longrightarrow> \<not> is_number_space c"
  by (auto simp: is_digit_def is_number_space_def)

lemma digit_lower: "is_digit c \<Longrightarrow> lower c = c"
  by (auto simp: is_digit_def lower_def)

lemma digit_chars:
  "is_digit c \<Longrightarrow> c \<noteq> CHR ''_'' \<and> c \<noteq> CHR ''-'' \<and> c \<noteq> CHR ''+'' \<and> c \<noteq> CHR ''.''
     \<and> c \<noteq> CHR ''i'' \<and> c \<noteq> CHR ''n''"
  by (auto simp: is_digit_def)

lemma zero_is_digit: "is_digit CHR ''0''"
  by (simp add: is_digit_def)

lemma digits_value_append:
  "digits_value (xs @ ys) = foldl (\<lambda>n c. 10 * n + digit_value c) (digits_value xs) ys"
  by (simp add: digits_value_def)

lemma foldl_zeros:
  "list_all (\<lambda>z. z = CHR ''0'') zeros \<Longrightarrow>
   foldl (\<lambda>n c. 10 * n + digit_value c) n zeros = n * 10 ^ length zeros"
  by (induction zeros arbitrary: n) (simp_all add: digit_value_def)

lemma integral_field_shape:
  assumes "integral_field field = Some n"
  obtains digits zeros where
    "field = digits @ CHR ''.'' # zeros" "digits \<noteq> []" "list_all is_digit digits"
    "zeros \<noteq> []" "list_all (\<lambda>z. z = CHR ''0'') zeros" "n = digits_value digits"
proof -
  from assms obtain zeros where
    rest: "dropWhile is_digit field = CHR ''.'' # zeros" and
    digits: "takeWhile is_digit field \<noteq> []" and
    zeros: "zeros \<noteq> []" "list_all (\<lambda>z. z = CHR ''0'') zeros" and
    n: "n = digits_value (takeWhile is_digit field)"
    by (auto simp: integral_field_def Let_def split: list.splits if_splits)
  have "field = takeWhile is_digit field @ dropWhile is_digit field" by simp
  with rest have "field = takeWhile is_digit field @ CHR ''.'' # zeros" by simp
  moreover have "list_all is_digit (takeWhile is_digit field)"
    by (simp add: list_all_iff) (meson set_takeWhileD)
  ultimately show ?thesis using that digits zeros n by blast
qed

lemma zeros_are_digits: "list_all (\<lambda>z. z = CHR ''0'') zeros \<Longrightarrow> list_all is_digit zeros"
  by (induction zeros) (simp_all add: is_digit_def)

lemma dot_not_digit: "\<not> is_digit CHR ''.''"
  by (simp add: is_digit_def)

lemma float_py_integral:
  assumes field: "integral_field field = Some n" and n: "n \<le> 2 ^ 53"
  shows "float_py field = Inr (Finite (rat_of_nat n))"
proof -
  from field obtain digits zeros where
    shape: "field = digits @ CHR ''.'' # zeros" and
    digits: "digits \<noteq> []" "list_all is_digit digits" and
    zeros: "zeros \<noteq> []" "list_all (\<lambda>z. z = CHR ''0'') zeros" and
    val: "n = digits_value digits"
    by (rule integral_field_shape)
  have zeros_digits: "list_all is_digit zeros"
    using zeros(2) by (rule zeros_are_digits)
  have "CHR ''_'' \<notin> set field"
    using shape digits(2) zeros_digits digit_chars by (auto simp: list_all_iff)
  then have plain: "remove_underscores (CHR 0x00) field = Some field"
    by (rule remove_underscores_none) simp
  obtain d ds where d: "digits = d # ds" using digits(1) by (cases digits) auto
  with digits(2) have first: "is_digit d" by simp
  have hd: "hd field = d" using shape d by simp
  have last: "last field = CHR ''0''"
    using shape zeros by (cases zeros rule: rev_cases) (auto simp: list_all_iff)
  have "field \<noteq> []" using shape by simp
  moreover have "\<not> is_number_space (hd field)"
    using hd first by (simp add: digit_not_space)
  moreover have "\<not> is_number_space (last field)"
    using last zero_is_digit by (simp add: digit_not_space)
  ultimately have strip: "strip_number field = field"
    by (rule strip_number_id)
  have take_int: "takeWhile is_digit field = digits"
    and drop_int: "dropWhile is_digit field = CHR ''.'' # zeros"
    using shape digits(2) dot_not_digit
    by (simp_all add: takeWhile_append2 dropWhile_append2 list_all_iff)
  have take_frac: "takeWhile is_digit zeros = zeros"
    and drop_frac: "dropWhile is_digit zeros = []"
    using zeros_digits by (simp_all add: list_all_iff)
  have number: "digits_value (digits @ zeros) = n * 10 ^ length zeros"
    using val zeros(2) by (simp add: digits_value_append foldl_zeros)
  have len: "0 < length zeros" using zeros(1) by simp
  have round: "round_decimal False (n * 10 ^ length zeros) (- int (length zeros)) =
      Finite (rat_of_nat n)"
    using round_ratio_integral[OF n, of "10 ^ length zeros"] len
    by (simp add: round_decimal_def)
  have no_exponent: "exponent [] = Some 0" by (simp add: exponent_def)
  have "decimal_literal False field =
      (case exponent (dropWhile is_digit zeros) of
         None \<Rightarrow> None
       | Some e \<Rightarrow>
           Some (round_decimal False (digits_value (digits @ takeWhile is_digit zeros))
                   (e - int (length (takeWhile is_digit zeros)))))"
    unfolding decimal_literal_def Let_def take_int drop_int using digits(1)
    by (simp cong: option.case_cong)
  also have "\<dots> = Some (round_decimal False (n * 10 ^ length zeros) (- int (length zeros)))"
    unfolding take_frac drop_frac no_exponent number by simp
  finally have literal: "decimal_literal False field = Some (Finite (rat_of_nat n))"
    unfolding round .
  have first_char: "d \<noteq> CHR ''-''" "d \<noteq> CHR ''+''" "lower d \<noteq> CHR ''i''" "lower d \<noteq> CHR ''n''"
    using digit_chars[OF first] digit_lower[OF first] by simp_all
  have "float_literal field = decimal_literal False field"
    using shape d first_char by (simp add: float_literal_def Let_def)
  with literal plain strip show ?thesis
    by (simp add: float_py_def)
qed

lemma floats_integral:
  assumes "list_all (\<lambda>field. integral_field field \<noteq> None) fields"
      and "sum_list (map (\<lambda>field. case integral_field field of None \<Rightarrow> 0 | Some n \<Rightarrow> n) fields)
             \<le> 2 ^ 53"
  shows "floats fields =
           Inr (map (\<lambda>n. Finite (rat_of_nat n))
                  (map (\<lambda>field. case integral_field field of None \<Rightarrow> 0 | Some n \<Rightarrow> n) fields))"
  using assms
proof (induction fields)
  case Nil
  then show ?case by simp
next
  case (Cons field fields)
  from Cons.prems(1) obtain n where n: "integral_field field = Some n" by auto
  with Cons.prems(2) have "n \<le> 2 ^ 53"
    and rest: "sum_list (map (\<lambda>field. case integral_field field of None \<Rightarrow> 0 | Some n \<Rightarrow> n) fields)
                 \<le> 2 ^ 53"
    by simp_all
  with n have "float_py field = Inr (Finite (rat_of_nat n))"
    by (simp add: float_py_integral)
  moreover from Cons.prems(1) have "list_all (\<lambda>field. integral_field field \<noteq> None) fields"
    by simp
  ultimately show ?case using Cons.IH rest n by simp
qed

subsection \<open>The rows of the three variants\<close>

text \<open>
  A row that is read without an exception gives the identifier of the row and the sum of
  the values of its numeric fields; an exact row of variant C is read without an exception.
\<close>

lemma split_sep_aux_nonempty: "split_sep_aux sep cur s \<noteq> []"
  by (induction s arbitrary: cur) simp_all

lemma getitem_split_sep:
  "getitem (split_sep sep s) 0 = Inr (hd (split_sep sep s))"
  using split_sep_aux_nonempty[of sep "[]" s]
  by (cases "split_sep sep s") (simp_all add: getitem_def split_sep_def)

lemma flair_row_exact:
  assumes "exact_row l"
  shows "flair_row l = Inr (row_identifier VariantC l, flair_count l)"
proof -
  define fields where "fields = numeric_fields VariantC l"
  define ns where
    "ns = map (\<lambda>field. case integral_field field of None \<Rightarrow> 0 | Some n \<Rightarrow> n) fields"
  from assms have "list_all (\<lambda>field. integral_field field \<noteq> None) fields"
    and total: "sum_list ns \<le> 2 ^ 53"
    by (simp_all add: exact_row_def valid_row_def row_total_def fields_def ns_def)
  then have "floats fields = Inr (map (\<lambda>n. Finite (rat_of_nat n)) ns)"
    unfolding ns_def by (rule floats_integral)
  moreover have "sum_floats (map (\<lambda>n. Finite (rat_of_nat n)) ns) = flair_count l"
    using sum_floats_nat[OF total]
    by (simp add: flair_count_def row_total_def fields_def ns_def)
  moreover have "drop 1 (split_sep (CHR 0x09) (strip_newline l)) = fields"
    by (simp add: fields_def numeric_fields_def row_fields_def)
  moreover have "row_identifier VariantC l = hd (split_sep (CHR 0x09) (strip_newline l))"
    by (simp add: row_identifier_def row_fields_def getitem_split_sep)
  ultimately show ?thesis
    by (simp add: flair_row_def Let_def getitem_split_sep)
qed

lemma int_py_empty: "int_py [] = Inl ValueError"
  by (simp add: int_py_def strip_number_def)

lemma ints_values: "ints fields = Inr numbers \<Longrightarrow> numbers = map integer_field fields"
proof (induction fields arbitrary: numbers)
  case Nil
  then show ?case by simp
next
  case (Cons field fields)
  from Cons.prems obtain n ns where
    n: "int_py field = Inr n" and ns: "ints fields = Inr ns" and numbers: "numbers = n # ns"
    by (auto split: sum.splits)
  from n have "field \<noteq> []" using int_py_empty by auto
  with n have "integer_field field = n" by (simp add: integer_field_def)
  with Cons.IH[OF ns] numbers show ?case by simp
qed

lemma sum_integer_field_filter:
  "sum_list (map integer_field (filter (\<lambda>count. count \<noteq> []) fields)) =
   sum_list (map integer_field fields)"
  by (induction fields) (auto simp: integer_field_def)

lemma oxford_row_result:
  assumes "oxford_row l = Inr (transcript_id, counts)"
  shows "transcript_id = row_identifier VariantA l
       \<and> counts = sum_list (map integer_field (numeric_fields VariantA l))"
proof -
  from assms obtain numbers where
    key: "getitem (split_sep CHR '','' (strip_newline l)) 0 = Inr transcript_id" and
    numbers: "ints (filter (\<lambda>count. count \<noteq> []) (drop 1 (split_sep CHR '','' (strip_newline l))))
                = Inr numbers" and
    counts: "counts = sum_list numbers"
    by (auto simp: oxford_row_def Let_def split: sum.splits)
  from key have "transcript_id = row_identifier VariantA l"
    by (simp add: row_identifier_def row_fields_def)
  moreover from ints_values[OF numbers] counts
  have "counts = sum_list (map integer_field (numeric_fields VariantA l))"
    by (simp add: sum_integer_field_filter numeric_fields_def row_fields_def)
  ultimately show ?thesis by simp
qed

lemma talon_row_result:
  assumes "talon_row l = Inr (transcript_id, counts)"
  shows "transcript_id = row_identifier VariantB l
       \<and> counts = sum_list (map integer_field (numeric_fields VariantB l))"
proof -
  from assms obtain numbers where
    key: "getitem (split_sep (CHR 0x09) (strip_newline l)) 3 = Inr transcript_id" and
    numbers: "ints (drop 11 (split_sep (CHR 0x09) (strip_newline l))) = Inr numbers" and
    counts: "counts = sum_list numbers"
    by (auto simp: talon_row_def Let_def split: sum.splits)
  from key have "transcript_id = row_identifier VariantB l"
    by (simp add: row_identifier_def row_fields_def)
  moreover from ints_values[OF numbers] counts
  have "counts = sum_list (map integer_field (numeric_fields VariantB l))"
    by (simp add: numeric_fields_def row_fields_def)
  ultimately show ?thesis by simp
qed

subsection \<open>The loop\<close>

text \<open>
  The dictionary after the loop holds for each identifier the count of its last row. On
  rows with distinct identifiers the loop appends one entry for each row.
\<close>

lemma rows_loop_map_of:
  assumes "\<And>l. l \<in> set rows \<Longrightarrow> read_row l = Inr (key l, amount l)"
  shows "\<exists>d'. rows_loop read_row d rows = Inr d'
           \<and> map_of d' = map_of d ++ map_of (rev (map (\<lambda>l. (key l, amount l)) rows))"
  using assms
proof (induction rows arbitrary: d)
  case Nil
  then show ?case by simp
next
  case (Cons l rows)
  have step: "read_row l = Inr (key l, amount l)" using Cons.prems by simp
  have "\<And>l'. l' \<in> set rows \<Longrightarrow> read_row l' = Inr (key l', amount l')"
    using Cons.prems by simp
  from Cons.IH[OF this, of "setitem d (key l) (amount l)"] obtain d' where
    loop: "rows_loop read_row (setitem d (key l) (amount l)) rows = Inr d'" and
    lookup: "map_of d' = map_of (setitem d (key l) (amount l))
               ++ map_of (rev (map (\<lambda>l. (key l, amount l)) rows))"
    by blast
  have "map_of d' = map_of d ++ map_of (rev (map (\<lambda>l. (key l, amount l)) (l # rows)))"
    using lookup by (auto simp: map_of_setitem map_add_def fun_eq_iff split: option.splits)
  with step loop show ?case by simp
qed

lemma rows_loop_distinct:
  assumes "\<And>l transcript_id counts. l \<in> set rows \<Longrightarrow> read_row l = Inr (transcript_id, counts) \<Longrightarrow>
                  transcript_id = key l \<and> counts = amount l"
      and "rows_loop read_row d rows = Inr d'"
      and "distinct (map key rows)"
      and "\<forall>l \<in> set rows. map_of d (key l) = None"
  shows "d' = d @ map (\<lambda>l. (key l, amount l)) rows"
  using assms
proof (induction rows arbitrary: d)
  case Nil
  then show ?case by simp
next
  case (Cons l rows)
  from Cons.prems(2) obtain transcript_id counts where
    step: "read_row l = Inr (transcript_id, counts)" and
    loop: "rows_loop read_row (setitem d transcript_id counts) rows = Inr d'"
    by (auto split: sum.splits)
  from Cons.prems(1)[OF _ step] have kc: "transcript_id = key l" "counts = amount l" by simp_all
  from Cons.prems(4) have "map_of d (key l) = None" by simp
  then have set: "setitem d (key l) (amount l) = d @ [(key l, amount l)]"
    by (rule setitem_absent)
  from Cons.prems(3) have dist: "distinct (map key rows)"
    and other: "\<forall>l' \<in> set rows. key l' \<noteq> key l"
    by (auto simp: image_iff)
  have absent: "\<forall>l' \<in> set rows. map_of (d @ [(key l, amount l)]) (key l') = None"
    using Cons.prems(4) other by (simp add: map_add_def)
  have "d' = (d @ [(key l, amount l)]) @ map (\<lambda>l. (key l, amount l)) rows"
  proof (rule Cons.IH)
    show "\<And>l' transcript_id counts. l' \<in> set rows \<Longrightarrow> read_row l' = Inr (transcript_id, counts) \<Longrightarrow>
            transcript_id = key l' \<and> counts = amount l'"
      using Cons.prems(1) by simp
    show "rows_loop read_row (d @ [(key l, amount l)]) rows = Inr d'"
      using loop kc set by simp
    show "distinct (map key rows)" by (rule dist)
    show "\<forall>l' \<in> set rows. map_of (d @ [(key l, amount l)]) (key l') = None" by (rule absent)
  qed
  then show ?case by simp
qed

lemma values_total_rows:
  assumes "\<And>l. l \<in> set rows \<Longrightarrow> number_value (amount l) = Some (q l)"
  shows "values_total (map (\<lambda>l. (key l, amount l)) rows) = Some (sum_list (map q rows))"
  using assms by (induction rows) simp_all

lemma sum_list_fields:
  "sum_list (map f (concat (map fields rows))) =
   sum_list (map (\<lambda>l. sum_list (map f (fields l))) rows)"
  by (induction rows) simp_all

lemma rat_of_int_sum_list: "rat_of_int (sum_list ns) = sum_list (map rat_of_int ns)"
  by (induction ns) simp_all

lemma rat_of_nat_sum_list: "rat_of_nat (sum_list ns) = sum_list (map rat_of_nat ns)"
  by (induction ns) simp_all

lemma integer_rows_total:
  assumes row: "\<And>l transcript_id counts. read_row l = Inr (transcript_id, counts) \<Longrightarrow>
                  transcript_id = row_identifier v l
                  \<and> counts = sum_list (map integer_field (numeric_fields v l))"
      and run: "rows_loop read_row [] rows = Inr d"
      and dist: "distinct (map (row_identifier v) rows)"
      and v: "v = VariantA \<or> v = VariantB"
  shows "values_total (map (\<lambda>item. (fst item, PyInt (snd item))) d) = Some (fields_total v rows)"
proof -
  have "d = [] @ map (\<lambda>l. (row_identifier v l, sum_list (map integer_field (numeric_fields v l)))) rows"
    using rows_loop_distinct[of rows read_row "row_identifier v"
        "\<lambda>l. sum_list (map integer_field (numeric_fields v l))" "[]" d] row run dist
    by simp
  then have "map (\<lambda>item. (fst item, PyInt (snd item))) d =
    map (\<lambda>l. (row_identifier v l, PyInt (sum_list (map integer_field (numeric_fields v l))))) rows"
    by simp
  then have "values_total (map (\<lambda>item. (fst item, PyInt (snd item))) d) =
    Some (sum_list (map (\<lambda>l. rat_of_int (sum_list (map integer_field (numeric_fields v l)))) rows))"
    using values_total_rows[of rows
        "\<lambda>l. PyInt (sum_list (map integer_field (numeric_fields v l)))"
        "\<lambda>l. rat_of_int (sum_list (map integer_field (numeric_fields v l)))" "row_identifier v"]
    by simp
  also have "(\<lambda>l. rat_of_int (sum_list (map integer_field (numeric_fields v l)))) =
             (\<lambda>l. sum_list (map (field_value v) (numeric_fields v l)))"
  proof -
    from v have "field_value v = (\<lambda>field. rat_of_int (integer_field field))"
      by (auto simp: field_value_def fun_eq_iff)
    then show ?thesis
      by (simp add: rat_of_int_sum_list comp_def)
  qed
  also have "sum_list (map (\<lambda>l. sum_list (map (field_value v) (numeric_fields v l))) rows) =
             fields_total v rows"
    by (simp add: fields_total_def sum_list_fields)
  finally show ?thesis .
qed

lemma flair_rows_total:
  assumes run: "rows_loop flair_row [] rows = Inr d"
      and dist: "distinct (map (row_identifier VariantC) rows)"
      and exact: "list_all exact_row rows"
  shows "values_total d = Some (fields_total VariantC rows)"
proof -
  have "d = [] @ map (\<lambda>l. (row_identifier VariantC l, flair_count l)) rows"
    using rows_loop_distinct[of rows flair_row "row_identifier VariantC" flair_count "[]" d]
      run dist exact flair_row_exact
    by (simp add: list_all_iff)
  then have "values_total d = Some (sum_list (map (\<lambda>l. rat_of_nat (row_total l)) rows))"
    using values_total_rows[of rows flair_count "\<lambda>l. rat_of_nat (row_total l)"
        "row_identifier VariantC"]
    by (simp add: flair_count_def row_total_def)
  also have "(\<lambda>l. rat_of_nat (row_total l)) =
             (\<lambda>l. sum_list (map (field_value VariantC) (numeric_fields VariantC l)))"
  proof
    fix l
    have "(\<lambda>field. rat_of_nat (case integral_field field of None \<Rightarrow> 0 | Some n \<Rightarrow> n)) =
          field_value VariantC"
      by (auto simp: field_value_def split: option.splits)
    then show "rat_of_nat (row_total l) =
               sum_list (map (field_value VariantC) (numeric_fields VariantC l))"
      by (simp add: row_total_def rat_of_nat_sum_list comp_def)
  qed
  also have "sum_list (map (\<lambda>l. sum_list (map (field_value VariantC) (numeric_fields VariantC l))) rows) =
             fields_total VariantC rows"
    by (simp add: fields_total_def sum_list_fields)
  finally show ?thesis .
qed

subsection \<open>The sample files\<close>

lemmas row_defs =
  exact_row_def valid_row_def row_total_def integral_field_def numeric_fields_def
  row_fields_def row_identifier_def flair_count_def tab_line_def split_sep_def
  strip_newline_def getitem_def is_digit_def digits_value_def digit_value_def Let_def

lemmas reader_defs =
  AbundanceReader_def format_oxford_def oxford_row_def split_sep_def strip_newline_def
  getitem_def int_py_def strip_number_def decimal_def is_digit_def digit_value_def
  is_number_space_def row_identifier_def row_fields_def numeric_fields_def field_value_def
  integer_field_def fields_total_def format_talon_def talon_row_def tab_line_def

lemma float_py_large:
  "float_py ''9007199254740992.0'' = Inr (Finite 9007199254740992)"
  "float_py ''1.0'' = Inr (Finite 1)"
  using float_py_integral[of "''9007199254740992.0''" 9007199254740992]
    float_py_integral[of "''1.0''" 1]
  by (simp_all add: integral_field_def is_digit_def digits_value_def digit_value_def)

lemma flair_sample_exact: "list_all exact_row (tl flair_sample)"
  by (simp add: flair_sample_def row_defs)

lemma flair_sample_run:
  "format_flair flair_sample = Inr [(''T1'', PyFloat (Finite 7)), (''T2'', PyFloat (Finite 12))]"
proof -
  have "flair_row (flair_sample ! 1) = Inr (''T1'', PyFloat (Finite 7))"
    using flair_row_exact[of "flair_sample ! 1"] by (simp add: flair_sample_def row_defs)
  moreover have "flair_row (flair_sample ! 2) = Inr (''T2'', PyFloat (Finite 12))"
    using flair_row_exact[of "flair_sample ! 2"] by (simp add: flair_sample_def row_defs)
  ultimately show ?thesis
    by (simp add: format_flair_def flair_sample_def)
qed

lemma flair_large_run:
  "format_flair flair_large = Inr [(''T1'', PyFloat (Finite 9007199254740992))]"
  by (simp add: flair_large_def format_flair_def flair_row_def tab_line_def split_sep_def
      strip_newline_def getitem_def float_py_large round_rat_large)

subsection \<open>The claims about the readers\<close>

text \<open>
  C4, as the code has it. For an abundance file of variant C whose rows are valid (each
  numeric field is written as digits, a point and zeros) and sum to at most \<open>2 ^ 53\<close>
  each, \<^verbatim>\<open>format_flair\<close> returns a dictionary that maps each identifier to the count of
  its last row, and the value of the count of a row is the natural number its fields sum
  to. The count is a \<^verbatim>\<open>float\<close>, and the \<^verbatim>\<open>int\<close> 0 for a row without numeric fields.
\<close>

theorem format_flair_counts:
  assumes "list_all exact_row rows"
  shows "(\<exists>d. format_flair (header # rows) = Inr d
            \<and> (\<forall>k. map_of d k =
                  map_of (rev (map (\<lambda>l. (row_identifier VariantC l, flair_count l)) rows)) k))
         \<and> (\<forall>l \<in> set rows. number_value (flair_count l) = Some (rat_of_nat (row_total l)))"
proof
  have "\<And>l. l \<in> set rows \<Longrightarrow> flair_row l = Inr (row_identifier VariantC l, flair_count l)"
    using assms by (simp add: list_all_iff flair_row_exact)
  from rows_loop_map_of[of rows flair_row "row_identifier VariantC" flair_count "[]", OF this]
  show "\<exists>d. format_flair (header # rows) = Inr d
            \<and> (\<forall>k. map_of d k =
                  map_of (rev (map (\<lambda>l. (row_identifier VariantC l, flair_count l)) rows)) k)"
    by (auto simp: format_flair_def)
  show "\<forall>l \<in> set rows. number_value (flair_count l) = Some (rat_of_nat (row_total l))"
    by (simp add: flair_count_def row_total_def)
qed

text \<open>The file with the rows \<^verbatim>\<open>T1 3.0 4.0\<close> and \<^verbatim>\<open>T2 0.0 12.0\<close>.\<close>

theorem format_flair_counts_witness:
  "list_all exact_row (tl flair_sample)
   \<and> format_flair flair_sample = Inr [(''T1'', PyFloat (Finite 7)), (''T2'', PyFloat (Finite 12))]
   \<and> map_of (rev (map (\<lambda>l. (row_identifier VariantC l, flair_count l)) (tl flair_sample))) ''T1''
       = Some (PyFloat (Finite 7))
   \<and> row_total (flair_sample ! 1) = 7"
proof -
  have total: "row_total (flair_sample ! 1) = 7"
    by (simp add: flair_sample_def row_defs)
  have shape: "flair_sample = hd flair_sample # tl flair_sample"
    by (simp add: flair_sample_def)
  from format_flair_counts[OF flair_sample_exact, of "hd flair_sample"] obtain d where
    run: "format_flair (hd flair_sample # tl flair_sample) = Inr d" and
    counts: "map_of d ''T1'' =
       map_of (rev (map (\<lambda>l. (row_identifier VariantC l, flair_count l)) (tl flair_sample))) ''T1''"
    by blast
  from run shape flair_sample_run
  have "d = [(''T1'', PyFloat (Finite 7)), (''T2'', PyFloat (Finite 12))]"
    by simp
  then have "map_of d ''T1'' = Some (PyFloat (Finite 7))"
    by simp
  with counts
  have "map_of (rev (map (\<lambda>l. (row_identifier VariantC l, flair_count l)) (tl flair_sample))) ''T1''
       = Some (PyFloat (Finite 7))"
    by simp
  with flair_sample_exact total flair_sample_run show ?thesis by simp
qed

text \<open>
  C4 as stated fails on a valid row whose fields sum to more than \<open>2 ^ 53\<close>: the
  fields \<^verbatim>\<open>9007199254740992.0\<close>, \<^verbatim>\<open>1.0\<close> and \<^verbatim>\<open>1.0\<close> sum to 9007199254740994,
  and the count of the row is the \<^verbatim>\<open>float\<close> 9007199254740992.0, each addition of 1.0
  being rounded away.
\<close>

theorem format_flair_large_row:
  "valid_row (flair_large ! 1)
   \<and> row_total (flair_large ! 1) = 9007199254740994
   \<and> format_flair flair_large = Inr [(''T1'', PyFloat (Finite 9007199254740992))]"
  by (simp add: flair_large_run) (simp add: flair_large_def row_defs)

text \<open>
  C9, as the code has it, for the three variants. For an abundance file that is read
  without an exception, whose rows have pairwise distinct identifiers and, in variant C,
  are valid and sum to at most \<open>2 ^ 53\<close> each, the sum of the values of the dictionary
  is the sum of all numeric fields of all rows, an empty field of variant A counting as 0.
\<close>

theorem reader_total_of_exact_distinct_rows:
  assumes "AbundanceReader v file = Inr d"
      and "distinct (map (row_identifier v) (tl file))"
      and "v = VariantC \<longrightarrow> list_all exact_row (tl file)"
  shows "values_total d = Some (fields_total v (tl file))"
proof (cases v)
  case VariantA
  with assms(1) obtain d0 where
    "rows_loop oxford_row [] (tl file) = Inr d0" and
    "d = map (\<lambda>item. (fst item, PyInt (snd item))) d0"
    by (cases "file") (auto simp: AbundanceReader_def format_oxford_def split: sum.splits)
  with assms(2) show ?thesis
    using integer_rows_total[of oxford_row VariantA "tl file" d0] oxford_row_result VariantA
    by blast
next
  case VariantB
  with assms(1) obtain d0 where
    "rows_loop talon_row [] (tl file) = Inr d0" and
    "d = map (\<lambda>item. (fst item, PyInt (snd item))) d0"
    by (cases "file") (auto simp: AbundanceReader_def format_talon_def split: sum.splits)
  with assms(2) show ?thesis
    using integer_rows_total[of talon_row VariantB "tl file" d0] talon_row_result VariantB
    by blast
next
  case VariantC
  with assms(1) have "rows_loop flair_row [] (tl file) = Inr d"
    by (cases "file") (simp_all add: AbundanceReader_def format_flair_def)
  with assms(2,3) VariantC show ?thesis
    using flair_rows_total[of "tl file" d] by simp
qed

text \<open>
  Two rows with distinct identifiers in a file of variant A, the first the row
  \<^verbatim>\<open>T1,4,,2\<close>, two in a file of variant B and two in a file of variant C.
\<close>

theorem reader_total_of_exact_distinct_rows_witness:
  "distinct (map (row_identifier VariantA) (tl abundance_distinct))
   \<and> AbundanceReader VariantA abundance_distinct = Inr [(''T1'', PyInt 6), (''T2'', PyInt 1)]
   \<and> fields_total VariantA (tl abundance_distinct) = 7
   \<and> distinct (map (row_identifier VariantB) (tl abundance_talon))
   \<and> AbundanceReader VariantB abundance_talon = Inr [(''N1'', PyInt 7), (''N2'', PyInt 12)]
   \<and> fields_total VariantB (tl abundance_talon) = 19
   \<and> distinct (map (row_identifier VariantC) (tl flair_sample))
   \<and> list_all exact_row (tl flair_sample)
   \<and> AbundanceReader VariantC flair_sample
       = Inr [(''T1'', PyFloat (Finite 7)), (''T2'', PyFloat (Finite 12))]
   \<and> fields_total VariantC (tl flair_sample) = 19"
proof -
  have dist: "distinct (map (row_identifier VariantA) (tl abundance_distinct))"
    by (simp add: abundance_distinct_def reader_defs)
  have run: "AbundanceReader VariantA abundance_distinct = Inr [(''T1'', PyInt 6), (''T2'', PyInt 1)]"
    by (simp add: abundance_distinct_def reader_defs)
  from reader_total_of_exact_distinct_rows[OF run dist]
  have fields: "fields_total VariantA (tl abundance_distinct) = 7"
    by simp
  have dist_B: "distinct (map (row_identifier VariantB) (tl abundance_talon))"
    by (simp add: abundance_talon_def reader_defs)
  have run_B: "AbundanceReader VariantB abundance_talon = Inr [(''N1'', PyInt 7), (''N2'', PyInt 12)]"
    by (simp add: abundance_talon_def reader_defs)
  from reader_total_of_exact_distinct_rows[OF run_B dist_B]
  have fields_B: "fields_total VariantB (tl abundance_talon) = 19"
    by simp
  have dist_C: "distinct (map (row_identifier VariantC) (tl flair_sample))"
    by (simp add: flair_sample_def row_defs)
  have run_C: "AbundanceReader VariantC flair_sample
       = Inr [(''T1'', PyFloat (Finite 7)), (''T2'', PyFloat (Finite 12))]"
    by (simp add: AbundanceReader_def flair_sample_run)
  from reader_total_of_exact_distinct_rows[OF run_C dist_C] flair_sample_exact
  have fields_C: "fields_total VariantC (tl flair_sample) = 19"
    by simp
  from dist run fields dist_B run_B fields_B dist_C flair_sample_exact run_C fields_C
  show ?thesis by simp
qed

text \<open>
  C9 as stated fails on an abundance file of variant A in which an identifier has two rows:
  the dictionary keeps the count of the last row only, 1, while the numeric fields of the
  two rows sum to 7. It fails as well on the file of variant C whose one row sums to
  9007199254740994: the value of the dictionary is 9007199254740992.
\<close>

theorem reader_total_differs_from_fields_total:
  "AbundanceReader VariantA abundance_repeated = Inr [(''T1'', PyInt 1)]
   \<and> values_total [(''T1'', PyInt 1)] = Some 1
   \<and> fields_total VariantA (tl abundance_repeated) = 7
   \<and> distinct (map (row_identifier VariantC) (tl flair_large))
   \<and> list_all valid_row (tl flair_large)
   \<and> AbundanceReader VariantC flair_large = Inr [(''T1'', PyFloat (Finite 9007199254740992))]
   \<and> values_total [(''T1'', PyFloat (Finite 9007199254740992))] = Some 9007199254740992
   \<and> fields_total VariantC (tl flair_large) = 9007199254740994"
proof -
  have "AbundanceReader VariantA abundance_repeated = Inr [(''T1'', PyInt 1)]"
    by (simp add: abundance_repeated_def reader_defs)
  moreover have "fields_total VariantA (tl abundance_repeated) = 7"
    by (simp add: abundance_repeated_def reader_defs)
  moreover have "distinct (map (row_identifier VariantC) (tl flair_large))"
    by (simp add: flair_large_def)
  moreover have "list_all valid_row (tl flair_large)"
    by (simp add: flair_large_def row_defs)
  moreover have "AbundanceReader VariantC flair_large
      = Inr [(''T1'', PyFloat (Finite 9007199254740992))]"
    by (simp add: AbundanceReader_def flair_large_run)
  moreover have "fields_total VariantC (tl flair_large) = 9007199254740994"
    by (simp add: flair_large_def fields_total_def field_value_def row_defs)
  ultimately show ?thesis by simp
qed

end
